theory Spec2Isabelle
  imports Complex_Main
begin

section \<open>Types, generators and exceptions\<close>

text \<open>
  A Python type object as the factory sees it.  \<open>Optional[Type]\<close> of the source is
  \<open>pytype option\<close>: \<open>None\<close> is the absent (unknown) type.
\<close>

datatype pytype =
    IntT | FloatT | BoolT | StrT | NoneTypeT
  | ClassT string
  | UnionT "pytype list"

type_synonym ptype = "pytype option"

text \<open>\<open>typing_inspect.is_union_type\<close> and \<open>get_args\<close>.\<close>

fun is_union_type :: "ptype \<Rightarrow> bool" where
  "is_union_type (Some (UnionT ts)) = True"
| "is_union_type other = False"

fun get_args :: "ptype \<Rightarrow> pytype list" where
  "get_args (Some (UnionT ts)) = ts"
| "get_args other = []"

text \<open>
  Modelled from the spec: \<open>pynguin.utils.type_utils\<close> is not part of the sources at hand.
  The primitive types are the fixed set int, float, bool, string; a type is primitive
  when it is one of them.
\<close>

definition PRIMITIVES :: "pytype list" where
  "PRIMITIVES = [IntT, StrT, BoolT, FloatT]"

definition is_primitive_type :: "ptype \<Rightarrow> bool" where
  "is_primitive_type t = (case t of None \<Rightarrow> False | Some ty \<Rightarrow> ty \<in> set PRIMITIVES)"

text \<open>
  Modelled from the spec: the Generic Accessible Objects (module
  \<open>genericaccessibleobject\<close> is not part of the sources at hand).  A constructor, method
  or function carries an inferred signature, an ordered mapping from parameter names
  to declared types; methods and fields carry an owner type.
\<close>

record inferred_signature =
  parameters :: "(string \<times> ptype) list"
  return_type :: ptype

datatype generic_constructor =
  GenericConstructor (c_owner: pytype) (c_inferred_signature: inferred_signature)

datatype generic_method =
  GenericMethod (m_owner: pytype) (m_name: string) (m_inferred_signature: inferred_signature)

datatype generic_function =
  GenericFunction (f_name: string) (f_inferred_signature: inferred_signature)

datatype generic_field =
  GenericField (fld_owner: pytype) (fld_name: string) (fld_type: ptype)

datatype generic_accessible_object =
    Constructor generic_constructor
  | Method generic_method
  | Function generic_function
  | Field generic_field
  | Unrecognized string

text \<open>
  Exceptions are values.  The message of a \<open>ConstructionFailedException\<close> is kept as
  the data its f-string interpolates.
\<close>

datatype exn =
    ConstructionFailedException failure
  | AssertionError
  | IndexError
  | KeyError
and failure =
    Max_recursion_depth_reached
  | Unknown_statement_type generic_accessible_object
  | Failed_to_add_constructor generic_constructor exn
  | Failed_to_create_variable ptype int
  | No_objects_for_type ptype

section \<open>Variable references\<close>

text \<open>
  A \<open>VariableReference\<close> is a Python object: its identity is its address (a natural
  number here), its attributes live in a store.  The class defines no \<open>__eq__\<close>, so
  \<open>==\<close> on references and dictionary lookup by a reference go by identity.
\<close>

type_synonym ref = nat

record variable_reference =
  variable_type :: ptype
  distance :: int

text \<open>The argument \<open>other: Any\<close> of \<open>structural_eq\<close>.\<close>

datatype any = Reference ref | Not_a_reference

text \<open>
  Python's \<open>==\<close> on type objects.  A class or builtin type compares by identity.
  \<open>typing.Union\<close> flattens nested unions, drops duplicate arms and collapses a union of
  one arm to that arm when it is built, and two unions are equal when their arms are
  equal as sets (\<open>frozenset(self.__args__) == frozenset(other.__args__)\<close>): the order in
  which the arms are written does not matter.  \<open>arms\<close> lists the arms of the flattened
  type; the absent type \<open>None\<close> is equal to itself only.
\<close>

fun arms :: "pytype \<Rightarrow> pytype list" where
  "arms (UnionT ts) = concat (map arms ts)"
| "arms IntT = [IntT]"
| "arms FloatT = [FloatT]"
| "arms BoolT = [BoolT]"
| "arms StrT = [StrT]"
| "arms NoneTypeT = [NoneTypeT]"
| "arms (ClassT c) = [ClassT c]"

definition type_eq :: "ptype \<Rightarrow> ptype \<Rightarrow> bool" where
  "type_eq a b =
     (case a of
        None \<Rightarrow> (case b of None \<Rightarrow> True | Some y \<Rightarrow> False)
      | Some x \<Rightarrow> (case b of None \<Rightarrow> False | Some y \<Rightarrow> set (arms x) = set (arms y)))"

text \<open>
  \<open>VariableReference.structural_eq\<close>: false for an argument that is no reference;
  the conjunction is Python's short-circuit \<open>and\<close>, the recorded types are compared
  with \<open>==\<close>, and \<open>memo[self]\<close> raises \<open>KeyError\<close> for a missing key.
\<close>

definition structural_eq ::
  "(ref \<Rightarrow> variable_reference) \<Rightarrow> ref \<Rightarrow> any \<Rightarrow> (ref \<rightharpoonup> ref) \<Rightarrow> exn + bool" where
  "structural_eq store self other memo =
     (case other of
        Not_a_reference \<Rightarrow> Inr False
      | Reference r \<Rightarrow>
          if type_eq (variable_type (store self)) (variable_type (store r))
          then (case memo self of None \<Rightarrow> Inl KeyError | Some m \<Rightarrow> Inr (m = r))
          else Inr False)"

section \<open>Statements and the test case\<close>

text \<open>
  Modelled from the spec: the statement classes (modules \<open>parametrizedstatements\<close>,
  \<open>fieldstatement\<close>, \<open>primitivestatements\<close>) are not part of the sources at hand.  A
  statement produces exactly one reference, its \<open>ret_val\<close>; a parametrized statement
  owns its argument references, a method or field statement its receiver as well.
  A primitive statement built without a value holds a random one.
\<close>

datatype statement_kind =
    ConstructorStatement generic_constructor
  | MethodStatement generic_method
  | FunctionStatement generic_function
  | FieldStatement generic_field
  | IntPrimitiveStatement nat
  | FloatPrimitiveStatement nat
  | BooleanPrimitiveStatement nat
  | StringPrimitiveStatement nat
  | NoneStatement

record statement =
  kind :: statement_kind
  ret_val :: ref
  args :: "ref list"
  callee :: "ref option"

definition owned :: "statement \<Rightarrow> ref list" where
  "owned s = (case callee s of None \<Rightarrow> [] | Some c \<Rightarrow> [c]) @ args s"

text \<open>
  The mutable world of one construction request: the statements of the test case, the
  store of reference attributes, the next free address, and the number of draws taken
  from the randomness source so far.
\<close>

record state =
  statements :: "statement list"
  vars :: "ref \<Rightarrow> variable_reference"
  next_id :: nat
  rng :: nat

text \<open>
  What is read only: the configuration, the catalog (a dictionary from a type to its
  generators, in insertion order) and the outcomes of the randomness source, draw by
  draw.
\<close>

record env =
  max_recursion :: int
  primitive_reuse_probability :: rat
  object_reuse_probability :: rat
  none_probability :: rat
  generators :: "(pytype \<times> generic_accessible_object list) list"
  floats :: "nat \<Rightarrow> rat"
  ints :: "nat \<Rightarrow> nat"

text \<open>
  Modelled from the spec: the randomness source (\<open>pynguin.utils.randomness\<close> is not part
  of the sources at hand).  \<open>next_float\<close> is the next uniform draw, \<open>choice\<close> picks an
  element of a sequence and raises \<open>IndexError\<close> on an empty one, as
  \<open>random.choice\<close> does.
\<close>

definition next_float :: "env \<Rightarrow> state \<Rightarrow> rat \<times> state" where
  "next_float e st = (floats e (rng st), st\<lparr>rng := Suc (rng st)\<rparr>)"

definition choice :: "env \<Rightarrow> state \<Rightarrow> 'a list \<Rightarrow> (exn + 'a) \<times> state" where
  "choice e st xs =
     (if xs = [] then (Inl IndexError, st)
      else (Inr (xs ! (ints e (rng st) mod length xs)), st\<lparr>rng := Suc (rng st)\<rparr>))"

definition next_value :: "env \<Rightarrow> state \<Rightarrow> nat \<times> state" where
  "next_value e st = (ints e (rng st), st\<lparr>rng := Suc (rng st)\<rparr>)"

text \<open>
  Modelled from the spec: the catalog (\<open>TestCluster\<close> is not part of the sources at
  hand).  \<open>get_generators_for\<close> may be empty; the keys of \<open>generators\<close> are the
  generator-bearing types.
\<close>

definition get_generators_for :: "env \<Rightarrow> pytype \<Rightarrow> generic_accessible_object list" where
  "get_generators_for e t = (case map_of (generators e) t of None \<Rightarrow> [] | Some gs \<Rightarrow> gs)"

text \<open>
  Modelled from the spec: the test case (\<open>DefaultTestCase\<close> is not part of the sources at
  hand; its tests are).  \<open>size\<close>; \<open>get_statement\<close>, which asserts that the position is in
  range; \<open>add_statement\<close>, which appends for position \<open>-1\<close> and otherwise inserts as
  \<open>list.insert\<close> does, shifting later statements; \<open>get_objects\<close>, the references defined
  before a position whose recorded type is the requested one, none for an absent
  type.
\<close>

definition size_tc :: "state \<Rightarrow> int" where
  "size_tc st = int (length (statements st))"

definition get_statement :: "state \<Rightarrow> int \<Rightarrow> exn + statement" where
  "get_statement st position =
     (if 0 \<le> position \<and> position < size_tc st then Inr (statements st ! nat position)
      else Inl AssertionError)"

definition insert_index :: "'a list \<Rightarrow> int \<Rightarrow> nat" where
  "insert_index xs i =
     (if i < 0 then nat (max 0 (int (length xs) + i)) else min (nat i) (length xs))"

definition list_insert :: "'a list \<Rightarrow> int \<Rightarrow> 'a \<Rightarrow> 'a list" where
  "list_insert xs i x = take (insert_index xs i) xs @ x # drop (insert_index xs i) xs"

definition slice_to :: "'a list \<Rightarrow> int \<Rightarrow> 'a list" where
  "slice_to xs i = take (insert_index xs i) xs"

definition add_statement :: "state \<Rightarrow> statement \<Rightarrow> int \<Rightarrow> ref \<times> state" where
  "add_statement st s position =
     (ret_val s,
      st\<lparr>statements :=
           (if position = - 1 then statements st @ [s]
            else list_insert (statements st) position s)\<rparr>)"

definition get_objects :: "state \<Rightarrow> ptype \<Rightarrow> int \<Rightarrow> ref list" where
  "get_objects st parameter_type position =
     (if parameter_type = None then []
      else map ret_val
             (filter (\<lambda>s. variable_type (vars st (ret_val s)) = parameter_type)
                (take (nat position) (statements st))))"

text \<open>
  \<open>VariableReferenceImpl.get_statement_position\<close>: the index of the first statement
  whose \<open>ret_val\<close> is the reference; an exception when there is none.
\<close>

fun position_from :: "statement list \<Rightarrow> ref \<Rightarrow> nat \<Rightarrow> nat option" where
  "position_from [] v idx = None"
| "position_from (s # ss) v idx =
     (if ret_val s = v then Some idx else position_from ss v (Suc idx))"

definition get_statement_position :: "state \<Rightarrow> ref \<Rightarrow> nat option" where
  "get_statement_position st v = position_from (statements st) v 0"

text \<open>Allocation of a fresh \<open>VariableReferenceImpl(test_case, variable_type)\<close>.\<close>

definition new_reference :: "state \<Rightarrow> ptype \<Rightarrow> ref \<times> state" where
  "new_reference st t =
     (next_id st,
      st\<lparr>vars := (vars st)(next_id st := \<lparr>variable_type = t, distance = 0\<rparr>),
         next_id := Suc (next_id st)\<rparr>)"

definition set_distance :: "state \<Rightarrow> ref \<Rightarrow> int \<Rightarrow> state" where
  "set_distance st v d = st\<lparr>vars := (vars st)(v := (vars st v)\<lparr>distance := d\<rparr>)\<rparr>"

text \<open>The statement constructors: each allocates the reference the statement returns.\<close>

definition new_statement ::
  "state \<Rightarrow> statement_kind \<Rightarrow> ptype \<Rightarrow> ref option \<Rightarrow> ref list \<Rightarrow> statement \<times> state" where
  "new_statement st k t c as =
     (case new_reference st t of
        (r, st') \<Rightarrow> (\<lparr>kind = k, ret_val = r, args = as, callee = c\<rparr>, st'))"

section \<open>The test factory\<close>

text \<open>
  Every operation returns the outcome (an exception or a value) together with the
  state it leaves behind: a raise keeps the statements inserted before it.  \<open>None\<close>
  means that the call did not return within the depth of calls it was given.  The
  leading underscore of the private methods is dropped.
\<close>

type_synonym 'a result = "((exn + 'a) \<times> state) option"

definition select_from_union :: "env \<Rightarrow> state \<Rightarrow> ptype \<Rightarrow> (exn + ptype) \<times> state" where
  "select_from_union e st parameter_type =
     (if \<not> is_union_type parameter_type then (Inr parameter_type, st)
      else (case choice e st (get_args parameter_type) of
              (Inl ex, st') \<Rightarrow> (Inl ex, st')
            | (Inr type', st') \<Rightarrow> (Inr (Some type'), st')))"

definition create_none :: "state \<Rightarrow> ptype \<Rightarrow> int \<Rightarrow> int \<Rightarrow> (exn + ref) \<times> state" where
  "create_none st parameter_type position recursion_depth =
     (case new_statement st NoneStatement parameter_type None [] of
        (stmt, st1) \<Rightarrow>
          (case add_statement st1 stmt position of
             (added, st2) \<Rightarrow>
               (case get_statement st2 position of
                  Inl ex \<Rightarrow> (Inl ex, st2)
                | Inr s \<Rightarrow> (Inr (ret_val s), set_distance st2 (ret_val s) recursion_depth))))"

definition create_primitive :: "env \<Rightarrow> state \<Rightarrow> ptype \<Rightarrow> int \<Rightarrow> int \<Rightarrow> ref \<times> state" where
  "create_primitive e st parameter_type position recursion_depth =
     (case next_value e st of
        (val, st0) \<Rightarrow>
          (case (if parameter_type = Some IntT
                 then new_statement st0 (IntPrimitiveStatement val) (Some IntT) None []
                 else if parameter_type = Some FloatT
                 then new_statement st0 (FloatPrimitiveStatement val) (Some FloatT) None []
                 else if parameter_type = Some BoolT
                 then new_statement st0 (BooleanPrimitiveStatement val) (Some BoolT) None []
                 else new_statement st0 (StringPrimitiveStatement val) (Some StrT) None []) of
             (stmt, st1) \<Rightarrow>
               (case add_statement st1 stmt position of
                  (ret, st2) \<Rightarrow> (ret, set_distance st2 ret recursion_depth))))"

text \<open>The type of the reference a primitive statement returns.\<close>

fun primitive_type :: "statement_kind \<Rightarrow> ptype" where
  "primitive_type (IntPrimitiveStatement v) = Some IntT"
| "primitive_type (FloatPrimitiveStatement v) = Some FloatT"
| "primitive_type (BooleanPrimitiveStatement v) = Some BoolT"
| "primitive_type (StringPrimitiveStatement v) = Some StrT"
| "primitive_type other = None"

text \<open>
  \<open>add_primitive\<close> has no recursion depth and no failure path: it clones the template
  into the test case at the position.
\<close>

definition add_primitive :: "state \<Rightarrow> statement \<Rightarrow> int \<Rightarrow> (exn + ref) \<times> state" where
  "add_primitive st primitive position =
     (let position = (if position < 0 then size_tc st else position) in
      case new_statement st (kind primitive) (primitive_type (kind primitive)) None [] of
        (stmt, st1) \<Rightarrow>
          (case add_statement st1 stmt position of (ret, st2) \<Rightarrow> (Inr ret, st2)))"

text \<open>A reference returned where the source's return type is \<open>Optional\<close>.\<close>

definition returning :: "(exn + ref) \<times> state \<Rightarrow> ref option result" where
  "returning r = (case r of (Inl ex, st) \<Rightarrow> Some (Inl ex, st) | (Inr v, st) \<Rightarrow> Some (Inr (Some v), st))"

text \<open>
  The methods of \<open>_TestFactory\<close> call each other through \<open>self\<close>.  The record below is
  that \<open>self\<close>: one field for each method that is called on it.  Each method is
  first written against an arbitrary \<open>self\<close>; \<open>test_factory\<close> then ties the knot, with
  one level of calls less at every step.
\<close>

record factory =
  self_append_generic_statement ::
    "state \<Rightarrow> generic_accessible_object \<Rightarrow> int \<Rightarrow> int \<Rightarrow> bool \<Rightarrow> ref option result"
  self_add_constructor :: "state \<Rightarrow> generic_constructor \<Rightarrow> int \<Rightarrow> int \<Rightarrow> bool \<Rightarrow> ref result"
  self_add_method :: "state \<Rightarrow> generic_method \<Rightarrow> int \<Rightarrow> int \<Rightarrow> bool \<Rightarrow> ref result"
  self_add_field :: "state \<Rightarrow> generic_field \<Rightarrow> int \<Rightarrow> int \<Rightarrow> ref result"
  self_add_function :: "state \<Rightarrow> generic_function \<Rightarrow> int \<Rightarrow> int \<Rightarrow> bool \<Rightarrow> ref result"
  self_satisfy_parameters ::
    "state \<Rightarrow> (string \<times> ptype) list \<Rightarrow> ref option \<Rightarrow> int \<Rightarrow> int \<Rightarrow> bool \<Rightarrow> bool
       \<Rightarrow> ref list result"
  self_create_or_reuse_variable ::
    "state \<Rightarrow> ptype \<Rightarrow> int \<Rightarrow> int \<Rightarrow> bool \<Rightarrow> ref option \<Rightarrow> ref option result"
  self_create_variable ::
    "state \<Rightarrow> ptype \<Rightarrow> int \<Rightarrow> int \<Rightarrow> bool \<Rightarrow> ref option \<Rightarrow> ref option result"
  self_attempt_generation ::
    "state \<Rightarrow> ptype \<Rightarrow> int \<Rightarrow> int \<Rightarrow> bool \<Rightarrow> ref option \<Rightarrow> ref option result"
  self_attempt_generation_for_type ::
    "state \<Rightarrow> int \<Rightarrow> int \<Rightarrow> bool \<Rightarrow> generic_accessible_object list \<Rightarrow> ref option result"
  self_create_random_type_variable :: "state \<Rightarrow> int \<Rightarrow> int \<Rightarrow> bool \<Rightarrow> ref option result"

definition append_generic_statement ::
  "factory \<Rightarrow> env \<Rightarrow> state \<Rightarrow> generic_accessible_object \<Rightarrow> int \<Rightarrow> int \<Rightarrow> bool
     \<Rightarrow> ref option result" where
  "append_generic_statement self e st g position recursion_depth allow_none =
     (let new_position = (if position = - 1 then size_tc st else position) in
      case g of
        Constructor c \<Rightarrow>
          (case self_add_constructor self st c new_position recursion_depth allow_none of
             None \<Rightarrow> None
           | Some (Inl ex, st') \<Rightarrow> Some (Inl ex, st')
           | Some (Inr v, st') \<Rightarrow> Some (Inr (Some v), st'))
      | Method m \<Rightarrow>
          (case self_add_method self st m new_position recursion_depth allow_none of
             None \<Rightarrow> None
           | Some (Inl ex, st') \<Rightarrow> Some (Inl ex, st')
           | Some (Inr v, st') \<Rightarrow> Some (Inr (Some v), st'))
      | Function f \<Rightarrow>
          (case self_add_function self st f new_position recursion_depth allow_none of
             None \<Rightarrow> None
           | Some (Inl ex, st') \<Rightarrow> Some (Inl ex, st')
           | Some (Inr v, st') \<Rightarrow> Some (Inr (Some v), st'))
      | Field fld \<Rightarrow>
          (case self_add_field self st fld new_position recursion_depth of
             None \<Rightarrow> None
           | Some (Inl ex, st') \<Rightarrow> Some (Inl ex, st')
           | Some (Inr v, st') \<Rightarrow> Some (Inr (Some v), st'))
      | Unrecognized u \<Rightarrow>
          Some (Inl (ConstructionFailedException (Unknown_statement_type g)), st))"

text \<open>
  \<open>add_constructor\<close>: the recursion check stands before the \<open>try\<close>; whatever the
  \<open>try\<close> block raises is raised again as a construction failure that names the
  constructor and the cause.
\<close>

definition add_constructor ::
  "factory \<Rightarrow> env \<Rightarrow> state \<Rightarrow> generic_constructor \<Rightarrow> int \<Rightarrow> int \<Rightarrow> bool \<Rightarrow> ref result" where
  "add_constructor self e st c position recursion_depth allow_none =
     (if recursion_depth > max_recursion e
      then Some (Inl (ConstructionFailedException Max_recursion_depth_reached), st)
      else
        let position = (if position < 0 then size_tc st else position);
            signature = c_inferred_signature c;
            len = size_tc st
        in case self_satisfy_parameters self st (parameters signature) None position
                  (recursion_depth + 1) allow_none True of
             None \<Rightarrow> None
           | Some (Inl exception, st1) \<Rightarrow>
               Some (Inl (ConstructionFailedException (Failed_to_add_constructor c exception)),
                     st1)
           | Some (Inr params, st1) \<Rightarrow>
               (let new_length = size_tc st1;
                    position = position + new_length - len
                in case new_statement st1 (ConstructorStatement c) (Some (c_owner c)) None params of
                     (stmt, st2) \<Rightarrow>
                       (case add_statement st2 stmt position of
                          (ret, st3) \<Rightarrow> Some (Inr ret, st3))))"

definition add_method ::
  "factory \<Rightarrow> env \<Rightarrow> state \<Rightarrow> generic_method \<Rightarrow> int \<Rightarrow> int \<Rightarrow> bool \<Rightarrow> ref result" where
  "add_method self e st m position recursion_depth allow_none =
     (if recursion_depth > max_recursion e
      then Some (Inl (ConstructionFailedException Max_recursion_depth_reached), st)
      else
        let position = (if position < 0 then size_tc st else position);
            signature = m_inferred_signature m;
            len = size_tc st
        in case self_create_or_reuse_variable self st (Some (m_owner m)) position
                  recursion_depth True None of
             None \<Rightarrow> None
           | Some (Inl ex, st1) \<Rightarrow> Some (Inl ex, st1)
           | Some (Inr None, st1) \<Rightarrow> Some (Inl AssertionError, st1)
           | Some (Inr (Some callee_ref), st1) \<Rightarrow>
               (case self_satisfy_parameters self st1 (parameters signature) None position
                       (recursion_depth + 1) allow_none True of
                  None \<Rightarrow> None
                | Some (Inl ex, st2) \<Rightarrow> Some (Inl ex, st2)
                | Some (Inr params, st2) \<Rightarrow>
                    (let new_length = size_tc st2;
                         position = position + new_length - len
                     in case new_statement st2 (MethodStatement m)
                               (return_type signature) (Some callee_ref) params of
                          (stmt, st3) \<Rightarrow>
                            (case add_statement st3 stmt position of
                               (ret, st4) \<Rightarrow> Some (Inr ret, st4)))))"

definition add_field ::
  "factory \<Rightarrow> env \<Rightarrow> state \<Rightarrow> generic_field \<Rightarrow> int \<Rightarrow> int \<Rightarrow> ref result" where
  "add_field self e st fld position recursion_depth =
     (if recursion_depth > max_recursion e
      then Some (Inl (ConstructionFailedException Max_recursion_depth_reached), st)
      else
        let position = (if position < 0 then size_tc st else position);
            len = size_tc st
        in case self_create_or_reuse_variable self st (Some (fld_owner fld)) position
                  recursion_depth False None of
             None \<Rightarrow> None
           | Some (Inl ex, st1) \<Rightarrow> Some (Inl ex, st1)
           | Some (Inr None, st1) \<Rightarrow> Some (Inl AssertionError, st1)
           | Some (Inr (Some callee_ref), st1) \<Rightarrow>
               (let position = position + size_tc st1 - len
                in case new_statement st1 (FieldStatement fld) (fld_type fld)
                          (Some callee_ref) [] of
                     (stmt, st2) \<Rightarrow>
                       (case add_statement st2 stmt position of
                          (ret, st3) \<Rightarrow> Some (Inr ret, st3))))"

definition add_function ::
  "factory \<Rightarrow> env \<Rightarrow> state \<Rightarrow> generic_function \<Rightarrow> int \<Rightarrow> int \<Rightarrow> bool \<Rightarrow> ref result" where
  "add_function self e st f position recursion_depth allow_none =
     (if recursion_depth > max_recursion e
      then Some (Inl (ConstructionFailedException Max_recursion_depth_reached), st)
      else
        let position = (if position < 0 then size_tc st else position);
            signature = f_inferred_signature f;
            len = size_tc st
        in case self_satisfy_parameters self st (parameters signature) None position
                  (recursion_depth + 1) allow_none True of
             None \<Rightarrow> None
           | Some (Inl ex, st1) \<Rightarrow> Some (Inl ex, st1)
           | Some (Inr params, st1) \<Rightarrow>
               (let new_length = size_tc st1;
                    position = position + new_length - len
                in case new_statement st1 (FunctionStatement f) (return_type signature)
                          None params of
                     (stmt, st2) \<Rightarrow>
                       (case add_statement st2 stmt position of
                          (ret, st3) \<Rightarrow> Some (Inr ret, st3))))"

text \<open>
  The \<open>for\<close> loop of \<open>satisfy_parameters\<close> over the declared parameter types, with the
  list \<open>parameters\<close> built so far and the position moved by what each parameter
  inserted.
\<close>

fun satisfy_parameters_loop ::
  "factory \<Rightarrow> state \<Rightarrow> ptype list \<Rightarrow> ref option \<Rightarrow> int \<Rightarrow> int \<Rightarrow> bool \<Rightarrow> bool \<Rightarrow> ref list
     \<Rightarrow> ref list result" where
  "satisfy_parameters_loop self st [] callee_ref position recursion_depth allow_none
     can_reuse_existing_variables params = Some (Inr params, st)"
| "satisfy_parameters_loop self st (parameter_type # rest) callee_ref position
     recursion_depth allow_none can_reuse_existing_variables params =
     (let previous_length = size_tc st in
      case (if can_reuse_existing_variables
            then self_create_or_reuse_variable self st parameter_type position recursion_depth
                   allow_none callee_ref
            else self_create_variable self st parameter_type position recursion_depth
                   allow_none callee_ref) of
        None \<Rightarrow> None
      | Some (Inl ex, st1) \<Rightarrow> Some (Inl ex, st1)
      | Some (Inr None, st1) \<Rightarrow>
          Some (Inl (ConstructionFailedException
                       (Failed_to_create_variable parameter_type position)), st1)
      | Some (Inr (Some var), st1) \<Rightarrow>
          (let current_length = size_tc st1;
               position = position + (current_length - previous_length)
           in satisfy_parameters_loop self st1 rest callee_ref position recursion_depth
                allow_none can_reuse_existing_variables (params @ [var])))"

definition satisfy_parameters ::
  "factory \<Rightarrow> env \<Rightarrow> state \<Rightarrow> (string \<times> ptype) list \<Rightarrow> ref option \<Rightarrow> int \<Rightarrow> int \<Rightarrow> bool \<Rightarrow> bool
     \<Rightarrow> ref list result" where
  "satisfy_parameters self e st parameter_types callee_ref position recursion_depth allow_none
     can_reuse_existing_variables =
     (let position = (if position < 0 then size_tc st else position) in
      satisfy_parameters_loop self st (map snd parameter_types) callee_ref position
        recursion_depth allow_none can_reuse_existing_variables [])"

definition create_or_reuse_variable ::
  "factory \<Rightarrow> env \<Rightarrow> state \<Rightarrow> ptype \<Rightarrow> int \<Rightarrow> int \<Rightarrow> bool \<Rightarrow> ref option \<Rightarrow> ref option result" where
  "create_or_reuse_variable self e st parameter_type position recursion_depth allow_none
     exclude =
     (case select_from_union e st parameter_type of
        (Inl ex, st0) \<Rightarrow> Some (Inl ex, st0)
      | (Inr parameter_type, st0) \<Rightarrow>
          (case next_float e st0 of
             (reuse, st1) \<Rightarrow>
               (let objects = get_objects st1 parameter_type position;
                    is_primitive = is_primitive_type parameter_type
                in if is_primitive \<and> objects \<noteq> []
                      \<and> reuse \<le> primitive_reuse_probability e
                   then returning (choice e st1 objects)
                   else if \<not> is_primitive \<and> objects \<noteq> []
                      \<and> reuse \<le> object_reuse_probability e
                   then returning (choice e st1 objects)
                   else if size_tc st1 > 0 \<and> parameter_type = None \<and> objects = []
                      \<and> map ret_val (slice_to (statements st1) position) \<noteq> []
                   then returning (choice e st1 (map ret_val (slice_to (statements st1) position)))
                   else
                     (case self_create_variable self st1 parameter_type position
                             recursion_depth allow_none exclude of
                        None \<Rightarrow> None
                      | Some (Inl ex, st2) \<Rightarrow> Some (Inl ex, st2)
                      | Some (Inr (Some created), st2) \<Rightarrow> Some (Inr (Some created), st2)
                      | Some (Inr None, st2) \<Rightarrow>
                          if objects = [] then
                            (case next_float e st2 of
                               (r, st3) \<Rightarrow>
                                 if r \<le> 85 / 100
                                 then self_create_random_type_variable self st3 position
                                        recursion_depth allow_none
                                 else if allow_none
                                 then returning
                                        (create_none st3 parameter_type position recursion_depth)
                                 else Some (Inl (ConstructionFailedException
                                                   (No_objects_for_type parameter_type)), st3))
                          else returning (choice e st2 objects)))))"

definition create_variable ::
  "factory \<Rightarrow> env \<Rightarrow> state \<Rightarrow> ptype \<Rightarrow> int \<Rightarrow> int \<Rightarrow> bool \<Rightarrow> ref option \<Rightarrow> ref option result" where
  "create_variable self e st parameter_type position recursion_depth allow_none exclude =
     self_attempt_generation self st parameter_type position recursion_depth allow_none exclude"

definition attempt_generation ::
  "factory \<Rightarrow> env \<Rightarrow> state \<Rightarrow> ptype \<Rightarrow> int \<Rightarrow> int \<Rightarrow> bool \<Rightarrow> ref option \<Rightarrow> ref option result" where
  "attempt_generation self e st parameter_type position recursion_depth allow_none exclude =
     (case parameter_type of
        None \<Rightarrow> Some (Inr None, st)
      | Some ty \<Rightarrow>
          if is_primitive_type parameter_type
          then (case create_primitive e st parameter_type position recursion_depth of
                  (ret, st1) \<Rightarrow> Some (Inr (Some ret), st1))
          else if get_generators_for e ty \<noteq> []
          then self_attempt_generation_for_type self st position recursion_depth allow_none
                 (get_generators_for e ty)
          else if allow_none
          then (case next_float e st of
                  (r, st1) \<Rightarrow>
                    if r \<le> none_probability e
                    then returning (create_none st1 parameter_type position recursion_depth)
                    else Some (Inr None, st1))
          else Some (Inr None, st))"

definition attempt_generation_for_type ::
  "factory \<Rightarrow> env \<Rightarrow> state \<Rightarrow> int \<Rightarrow> int \<Rightarrow> bool \<Rightarrow> generic_accessible_object list
     \<Rightarrow> ref option result" where
  "attempt_generation_for_type self e st position recursion_depth allow_none type_generators =
     (case choice e st type_generators of
        (Inl ex, st1) \<Rightarrow> Some (Inl ex, st1)
      | (Inr type_generator, st1) \<Rightarrow>
          self_append_generic_statement self st1 type_generator position (recursion_depth + 1)
            allow_none)"

definition create_random_type_variable ::
  "factory \<Rightarrow> env \<Rightarrow> state \<Rightarrow> int \<Rightarrow> int \<Rightarrow> bool \<Rightarrow> ref option result" where
  "create_random_type_variable self e st position recursion_depth allow_none =
     (let generator_types = map fst (generators e) @ PRIMITIVES in
      case choice e st generator_types of
        (Inl ex, st1) \<Rightarrow> Some (Inl ex, st1)
      | (Inr generator_type, st1) \<Rightarrow>
          self_create_or_reuse_variable self st1 (Some generator_type) position
            (recursion_depth + 1) allow_none None)"

text \<open>
  The factory whose calls may nest \<open>n\<close> deep: with no depth left a call does not
  return; otherwise every method runs its body against the factory of one level
  less.
\<close>

definition exhausted :: factory where
  "exhausted =
     \<lparr>self_append_generic_statement = (\<lambda>st g p d a. None),
      self_add_constructor = (\<lambda>st c p d a. None),
      self_add_method = (\<lambda>st m p d a. None),
      self_add_field = (\<lambda>st f p d. None),
      self_add_function = (\<lambda>st f p d a. None),
      self_satisfy_parameters = (\<lambda>st ts c p d a r. None),
      self_create_or_reuse_variable = (\<lambda>st t p d a x. None),
      self_create_variable = (\<lambda>st t p d a x. None),
      self_attempt_generation = (\<lambda>st t p d a x. None),
      self_attempt_generation_for_type = (\<lambda>st p d a gs. None),
      self_create_random_type_variable = (\<lambda>st p d a. None)\<rparr>"

definition methods :: "factory \<Rightarrow> env \<Rightarrow> factory" where
  "methods self e =
     \<lparr>self_append_generic_statement = append_generic_statement self e,
      self_add_constructor = add_constructor self e,
      self_add_method = add_method self e,
      self_add_field = add_field self e,
      self_add_function = add_function self e,
      self_satisfy_parameters = satisfy_parameters self e,
      self_create_or_reuse_variable = create_or_reuse_variable self e,
      self_create_variable = create_variable self e,
      self_attempt_generation = attempt_generation self e,
      self_attempt_generation_for_type = attempt_generation_for_type self e,
      self_create_random_type_variable = create_random_type_variable self e\<rparr>"

primrec test_factory :: "nat \<Rightarrow> env \<Rightarrow> factory" where
  "test_factory 0 e = exhausted"
| "test_factory (Suc n) e = methods (test_factory n e) e"



section \<open>Notions used to state the properties\<close>

text \<open>
  None of what follows is computed by the factory: these are the predicates in which
  its properties are stated and proved.
\<close>

text \<open>The references defined before a position.\<close>

definition visible :: "state \<Rightarrow> int \<Rightarrow> ref set" where
  "visible st p = ret_val ` set (take (nat p) (statements st))"

text \<open>
  What Python's object identity guarantees: the references a test case defines are
  pairwise distinct, and a reference allocated later differs from every reference the
  test case mentions.
\<close>

definition well_formed :: "state \<Rightarrow> bool" where
  "well_formed st \<longleftrightarrow>
     distinct (map ret_val (statements st))
     \<and> (\<forall>s \<in> set (statements st). ret_val s < next_id st \<and> (\<forall>u \<in> set (owned s). u < next_id st))"

text \<open>
  The dependency order of a test case: every reference a statement owns is defined at
  a strictly smaller position.
\<close>

definition dependency_ordered :: "state \<Rightarrow> bool" where
  "dependency_ordered st \<longleftrightarrow>
     (\<forall>i < length (statements st). \<forall>u \<in> set (owned (statements st ! i)).
        \<exists>j < i. get_statement_position st u = Some j)"

text \<open>
  \<open>grows st st'\<close>: the test case of \<open>st'\<close> is that of \<open>st\<close> after a sequence of
  insertions, each of a statement that returns a freshly allocated reference and owns
  only references defined before the place where it is inserted.
\<close>

inductive grows :: "state \<Rightarrow> state \<Rightarrow> bool" where
  same: "statements st' = statements st \<Longrightarrow> next_id st' = next_id st \<Longrightarrow> grows st st'"
| insert: "grows st st1 \<Longrightarrow> i \<le> length (statements st1) \<Longrightarrow> ret_val s = next_id st1
     \<Longrightarrow> set (owned s) \<subseteq> ret_val ` set (take i (statements st1))
     \<Longrightarrow> statements st2 = take i (statements st1) @ s # drop i (statements st1)
     \<Longrightarrow> next_id st2 = Suc (next_id st1) \<Longrightarrow> grows st st2"

text \<open>The statements returning a reference \<open>\<ge> k\<close> own only earlier references.\<close>

definition valid_from :: "nat \<Rightarrow> statement list \<Rightarrow> bool" where
  "valid_from k ss \<longleftrightarrow>
     (\<forall>i < length ss. k \<le> ret_val (ss ! i) \<longrightarrow> set (owned (ss ! i)) \<subseteq> ret_val ` set (take i ss))"

text \<open>Two states with the same test case and the same allocator.\<close>

definition same_tc :: "state \<Rightarrow> state \<Rightarrow> bool" where
  "same_tc st st' \<longleftrightarrow> statements st' = statements st \<and> next_id st' = next_id st"

text \<open>The position the public operations work with: a negative one means the end.\<close>

definition norm_position :: "state \<Rightarrow> int \<Rightarrow> int" where
  "norm_position st p = (if p < 0 then size_tc st else p)"

text \<open>
  The contract of one call at position \<open>p\<close>: if it returns a value, the test case has
  grown, the returned references are visible before the position moved by the growth
  and, where \<open>fresh\<close> is set, they were allocated during the call.
\<close>

definition ok :: "bool \<Rightarrow> state \<Rightarrow> int \<Rightarrow> ('a \<Rightarrow> ref set) \<Rightarrow> 'a result \<Rightarrow> bool" where
  "ok fresh st p refs res \<longleftrightarrow>
     (\<forall>r st'. res = Some (Inr r, st') \<longrightarrow>
        grows st st' \<and> refs r \<subseteq> visible st' (p + (size_tc st' - size_tc st))
        \<and> (fresh \<longrightarrow> (\<forall>v \<in> refs r. next_id st \<le> v)))"

text \<open>A factory all of whose methods keep that contract.\<close>

definition sound :: "factory \<Rightarrow> bool" where
  "sound self \<longleftrightarrow>
     (\<forall>st g p d a. ok True st (norm_position st p) set_option
                      (self_append_generic_statement self st g p d a))
   \<and> (\<forall>st c p d a. ok True st (norm_position st p) (\<lambda>v. {v}) (self_add_constructor self st c p d a))
   \<and> (\<forall>st m p d a. ok True st (norm_position st p) (\<lambda>v. {v}) (self_add_method self st m p d a))
   \<and> (\<forall>st f p d. ok True st (norm_position st p) (\<lambda>v. {v}) (self_add_field self st f p d))
   \<and> (\<forall>st f p d a. ok True st (norm_position st p) (\<lambda>v. {v}) (self_add_function self st f p d a))
   \<and> (\<forall>st ts c p d a r. ok False st (norm_position st p) set
                           (self_satisfy_parameters self st ts c p d a r))
   \<and> (\<forall>st t p d a x. 0 \<le> p \<longrightarrow> ok False st p set_option
                           (self_create_or_reuse_variable self st t p d a x))
   \<and> (\<forall>st t p d a x. 0 \<le> p \<longrightarrow> ok True st p set_option (self_create_variable self st t p d a x))
   \<and> (\<forall>st t p d a x. 0 \<le> p \<longrightarrow> ok True st p set_option
                           (self_attempt_generation self st t p d a x))
   \<and> (\<forall>st p d a gs. 0 \<le> p \<longrightarrow> ok True st p set_option
                           (self_attempt_generation_for_type self st p d a gs))
   \<and> (\<forall>st p d a. 0 \<le> p \<longrightarrow> ok False st p set_option
                           (self_create_random_type_variable self st p d a))"

text \<open>
  The resolution of one parameter in \<open>satisfy_parameters\<close>, and the trace of a loop
  that resolved each parameter type in turn, every one at the position left by its
  predecessors.
\<close>

definition resolve ::
  "factory \<Rightarrow> bool \<Rightarrow> state \<Rightarrow> ptype \<Rightarrow> int \<Rightarrow> int \<Rightarrow> bool \<Rightarrow> ref option \<Rightarrow> ref option result" where
  "resolve self can_reuse st t p d a cr =
     (if can_reuse then self_create_or_reuse_variable self st t p d a cr
      else self_create_variable self st t p d a cr)"

inductive resolved_in_order ::
  "factory \<Rightarrow> bool \<Rightarrow> ref option \<Rightarrow> int \<Rightarrow> bool \<Rightarrow> state \<Rightarrow> int \<Rightarrow> ptype list \<Rightarrow> ref list \<Rightarrow> state
     \<Rightarrow> bool"
  for self :: factory and r :: bool and cr :: "ref option" and d :: int and a :: bool where
  none_left: "resolved_in_order self r cr d a st p [] [] st"
| one_more: "resolve self r st t p d a cr = Some (Inr (Some v), st1)
     \<Longrightarrow> resolved_in_order self r cr d a st1 (p + (size_tc st1 - size_tc st)) ts vs st'
     \<Longrightarrow> resolved_in_order self r cr d a st p (t # ts) (v # vs) st'"

section \<open>Concrete inputs\<close>

text \<open>
  A few test cases, generators and environments on which the theorems below are
  instantiated.  The randomness source of \<open>example_env f gs\<close> draws the float \<open>f\<close> and
  the index \<open>0\<close> every time.
\<close>

definition empty_test_case :: state where
  "empty_test_case =
     \<lparr>statements = [], vars = (\<lambda>v. \<lparr>variable_type = None, distance = 0\<rparr>), next_id = 0, rng = 0\<rparr>"

definition example_env :: "rat \<Rightarrow> (pytype \<times> generic_accessible_object list) list \<Rightarrow> env" where
  "example_env f gs =
     \<lparr>max_recursion = 10, primitive_reuse_probability = 1, object_reuse_probability = 1,
      none_probability = 1 / 2, generators = gs, floats = (\<lambda>k. f), ints = (\<lambda>k. 0)\<rparr>"

definition constructor_C :: generic_constructor where
  "constructor_C =
     GenericConstructor (ClassT ''C'') \<lparr>parameters = [(''x'', Some IntT)], return_type = None\<rparr>"

definition one_int_test_case :: state where
  "one_int_test_case =
     \<lparr>statements = [\<lparr>kind = IntPrimitiveStatement 7, ret_val = 0, args = [], callee = None\<rparr>],
      vars = (\<lambda>v. \<lparr>variable_type = (if v = 0 then Some IntT else None), distance = 0\<rparr>),
      next_id = 1, rng = 0\<rparr>"

definition constructor_D :: generic_constructor where
  "constructor_D =
     GenericConstructor (ClassT ''D'')
       \<lparr>parameters = [(''foo'', Some (ClassT ''Foo''))], return_type = None\<rparr>"

definition function_g :: generic_function where
  "function_g =
     GenericFunction ''g'' \<lparr>parameters = [(''foo'', Some (ClassT ''Foo''))], return_type = Some IntT\<rparr>"

definition method_of_int :: generic_method where
  "method_of_int =
     GenericMethod IntT ''m'' \<lparr>parameters = [(''foo'', Some (ClassT ''Foo''))], return_type = None\<rparr>"

definition method_of_Foo :: generic_method where
  "method_of_Foo = GenericMethod (ClassT ''Foo'') ''bar'' \<lparr>parameters = [], return_type = None\<rparr>"

definition field_of_Foo :: generic_field where
  "field_of_Foo = GenericField (ClassT ''Foo'') ''a'' (Some IntT)"

definition broken_catalog :: "(pytype \<times> generic_accessible_object list) list" where
  "broken_catalog = [(ClassT ''Foo'', [Unrecognized ''Foo''])]"

text \<open>The state and the outcome of a finished call.\<close>

definition final_state :: "'a result \<Rightarrow> state" where
  "final_state r = (case r of None \<Rightarrow> empty_test_case | Some (x, st') \<Rightarrow> st')"

definition outcome :: "'a result \<Rightarrow> (exn + 'a) option" where
  "outcome r = map_option fst r"

definition int_template :: statement where
  "int_template = \<lparr>kind = IntPrimitiveStatement 5, ret_val = 0, args = [], callee = None\<rparr>"

text \<open>
  Scenario A: on the empty test case, the constructor \<open>C(int)\<close> is requested at the end.
\<close>

definition scenario_A :: "ref result" where
  "scenario_A =
     self_add_constructor (test_factory 5 (example_env 0 [])) empty_test_case constructor_C
       (- 1) 0 True"

text \<open>
  Two \<open>int\<close> parameters, satisfied without reuse on a test case that already holds an
  \<open>int\<close>.
\<close>

definition forced_two_ints :: "ref list result" where
  "forced_two_ints =
     self_satisfy_parameters (test_factory 4 (example_env 0 [])) one_int_test_case
       [(''x'', Some IntT), (''y'', Some IntT)] None (- 1) 0 True False"


text \<open>A catalog whose only generator for \<open>Foo\<close> is of no known kind makes construction raise.\<close>

definition receiver_run :: "ref option result" where
  "receiver_run =
     self_create_or_reuse_variable (test_factory 6 (example_env 0 broken_catalog)) empty_test_case
       (Some IntT) 0 0 True None"

text \<open>
  Runs of \<open>satisfy_parameters\<close> on two parameters: both resolved; and the resolution of
  the first of \<open>(x: int, foo: Foo)\<close>, without reuse and with reuse, after which \<open>Foo\<close>
  cannot be satisfied.
\<close>

definition two_parameters :: "ref list result" where
  "two_parameters =
     self_satisfy_parameters (test_factory 4 (example_env 0 [])) empty_test_case
       [(''x'', Some IntT), (''y'', Some StrT)] None (- 1) 0 False True"

definition first_created :: "ref option result" where
  "first_created =
     self_create_variable (test_factory 3 (example_env 0 [])) empty_test_case (Some IntT)
       (norm_position empty_test_case (- 1)) 0 False None"

definition first_resolved :: "ref option result" where
  "first_resolved =
     self_create_or_reuse_variable (test_factory 3 (example_env (9 / 10) [])) empty_test_case
       (Some IntT) (norm_position empty_test_case (- 1)) 0 False None"

definition unknown_Foo :: exn where
  "unknown_Foo = ConstructionFailedException (Unknown_statement_type (Unrecognized ''Foo''))"

text \<open>
  A test case that holds an \<open>int\<close> literal and the result of a function declared to
  return \<open>Union[str, int]\<close>, and the request of a \<open>Union[str, int]\<close> at its end.
\<close>

definition function_h :: generic_function where
  "function_h =
     GenericFunction ''h'' \<lparr>parameters = [], return_type = Some (UnionT [StrT, IntT])\<rparr>"

definition int_and_union_test_case :: state where
  "int_and_union_test_case =
     \<lparr>statements = [\<lparr>kind = IntPrimitiveStatement 7, ret_val = 0, args = [], callee = None\<rparr>,
                    \<lparr>kind = FunctionStatement function_h, ret_val = 1, args = [], callee = None\<rparr>],
      vars = (\<lambda>v. \<lparr>variable_type = (if v = 0 then Some IntT
                                     else if v = 1 then Some (UnionT [StrT, IntT]) else None),
                    distance = 0\<rparr>),
      next_id = 2, rng = 0\<rparr>"

definition union_request :: "ref option result" where
  "union_request =
     self_create_or_reuse_variable (test_factory 3 (example_env 0 [])) int_and_union_test_case
       (Some (UnionT [StrT, IntT])) 2 0 True None"



definition params_run :: "ref list result" where
  "params_run =
     self_satisfy_parameters (test_factory 6 (example_env 0 broken_catalog))
       (final_state receiver_run) (parameters (m_inferred_signature method_of_int)) None
       (norm_position empty_test_case (- 1)) (0 + 1) False True"

section \<open>Basic facts\<close>

lemma methods_simps [simp]:
  "self_add_constructor (methods self e) = add_constructor self e"
  "self_add_method (methods self e) = add_method self e"
  "self_add_function (methods self e) = add_function self e"
  "self_add_field (methods self e) = add_field self e"
  "self_append_generic_statement (methods self e) = append_generic_statement self e"
  "self_satisfy_parameters (methods self e) = satisfy_parameters self e"
  "self_create_or_reuse_variable (methods self e) = create_or_reuse_variable self e"
  "self_create_variable (methods self e) = create_variable self e"
  "self_attempt_generation (methods self e) = attempt_generation self e"
  "self_attempt_generation_for_type (methods self e) = attempt_generation_for_type self e"
  "self_create_random_type_variable (methods self e) = create_random_type_variable self e"
  by (simp_all add: methods_def)

section \<open>Growth of a test case\<close>

lemma grows_refl: "grows st st"
  by (rule grows.same) simp_all

lemma grows_cong:
  "grows a b \<Longrightarrow> statements c = statements b \<Longrightarrow> next_id c = next_id b \<Longrightarrow> grows a c"
  by (cases rule: grows.cases) (auto intro: grows.intros)

lemma grows_trans: "grows b c \<Longrightarrow> grows a b \<Longrightarrow> grows a c"
proof (induction rule: grows.induct)
  case (same st' st)
  then show ?case using grows_cong by blast
next
  case (insert st st1 i s st2)
  then show ?case by (blast intro: grows.insert)
qed

lemma grows_next_id: "grows st st' \<Longrightarrow> next_id st \<le> next_id st'"
  by (induction rule: grows.induct) auto

lemma grows_size:
  "grows st st' \<Longrightarrow> size_tc st' - size_tc st = int (next_id st') - int (next_id st)"
  by (induction rule: grows.induct) (auto simp: size_tc_def)

lemma grows_size_le: "grows st st' \<Longrightarrow> size_tc st \<le> size_tc st'"
  using grows_size grows_next_id by fastforce

lemma take_insert_subset:
  assumes i: "i \<le> length xs"
  shows "set (take m xs) \<subseteq> set (take (Suc m) (take i xs @ s # drop i xs))"
proof (cases "m \<le> i")
  case True
  then have "take m (take i xs @ s # drop i xs) = take m xs"
    using i by (simp add: min_def)
  then have "set (take m xs) = set (take m (take i xs @ s # drop i xs))" by simp
  also have "\<dots> \<subseteq> set (take (Suc m) (take i xs @ s # drop i xs))"
    by (rule set_take_subset_set_take) simp
  finally show ?thesis .
next
  case False
  then have m: "i < m" by simp
  have "take m xs = take i xs @ take (m - i) (drop i xs)"
    using m by (metis le_add_diff_inverse less_imp_le take_add)
  moreover have "take (Suc m) (take i xs @ s # drop i xs) = take i xs @ s # take (m - i) (drop i xs)"
    using m i by (simp add: min_def Suc_diff_le)
  ultimately show ?thesis by auto
qed

lemma visible_mono: "p \<le> q \<Longrightarrow> visible st p \<subseteq> visible st q"
  unfolding visible_def by (meson image_mono nat_mono set_take_subset_set_take)

lemma grows_visible:
  "grows st st' \<Longrightarrow> v \<in> visible st p \<Longrightarrow> v \<in> visible st' (p + (size_tc st' - size_tc st))"
proof (induction arbitrary: rule: grows.induct)
  case (same st' st)
  then show ?case by (simp add: visible_def size_tc_def)
next
  case (insert st st1 i s st2)
  have sz: "size_tc st2 = size_tc st1 + 1" using insert.hyps by (simp add: size_tc_def)
  have le: "size_tc st \<le> size_tc st1" using insert.hyps(1) by (rule grows_size_le)
  let ?q = "p + (size_tc st1 - size_tc st)"
  have v1: "v \<in> visible st1 ?q" using insert by blast
  then have q0: "0 < ?q" by (cases "0 < ?q") (auto simp: visible_def)
  have "set (take (nat ?q) (statements st1)) \<subseteq> set (take (Suc (nat ?q)) (statements st2))"
    unfolding insert.hyps(5) by (rule take_insert_subset[OF insert.hyps(2)])
  then have "visible st1 ?q \<subseteq> ret_val ` set (take (Suc (nat ?q)) (statements st2))"
    unfolding visible_def by blast
  moreover have "Suc (nat ?q) \<le> nat (p + (size_tc st2 - size_tc st))"
    using sz q0 by linarith
  then have "ret_val ` set (take (Suc (nat ?q)) (statements st2))
      \<subseteq> visible st2 (p + (size_tc st2 - size_tc st))"
    unfolding visible_def by (intro image_mono set_take_subset_set_take)
  ultimately show ?case using v1 by blast
qed

lemma valid_from_insert:
  assumes v: "valid_from k xs" and i: "i \<le> length xs"
    and s: "set (owned s) \<subseteq> ret_val ` set (take i xs)"
  shows "valid_from k (take i xs @ s # drop i xs)"
  unfolding valid_from_def
proof (intro allI impI)
  fix j
  let ?ys = "take i xs @ s # drop i xs"
  assume j: "j < length ?ys" and k: "k \<le> ret_val (?ys ! j)"
  have ti: "take i ?ys = take i xs" using i by simp
  consider "j < i" | "j = i" | "i < j" by linarith
  then show "set (owned (?ys ! j)) \<subseteq> ret_val ` set (take j ?ys)"
  proof cases
    case 1
    then have e: "?ys ! j = xs ! j" using i by (simp add: nth_append)
    have t: "take j ?ys = take j xs" using 1 i by (simp add: min_def)
    have "j < length xs" using 1 i by simp
    then show ?thesis using v k e t unfolding valid_from_def by auto
  next
    case 2
    then have e: "?ys ! j = s" using i by (simp add: nth_append)
    show ?thesis using s e ti 2 by simp
  next
    case 3
    then obtain m where m: "j = Suc m" and im: "i \<le> m" by (cases j) auto
    have ml: "m < length xs" using j m i by simp
    have e: "?ys ! j = xs ! m"
      using m im i ml by (simp add: nth_append min_def Suc_diff_le)
    have "set (owned (xs ! m)) \<subseteq> ret_val ` set (take m xs)"
      using v k e ml unfolding valid_from_def by auto
    moreover have "set (take m xs) \<subseteq> set (take (Suc m) ?ys)"
      by (rule take_insert_subset[OF i])
    ultimately show ?thesis using e m by auto
  qed
qed

lemma grows_valid_from:
  "grows st st' \<Longrightarrow> valid_from k (statements st) \<Longrightarrow> valid_from k (statements st')"
proof (induction rule: grows.induct)
  case (same st' st)
  then show ?case by simp
next
  case (insert st st1 i s st2)
  then show ?case using valid_from_insert by simp
qed

lemma grows_ids:
  "grows st st' \<Longrightarrow>
     ret_val ` set (statements st) \<subseteq> ret_val ` set (statements st')
   \<and> ret_val ` set (statements st') \<subseteq> ret_val ` set (statements st) \<union> {next_id st ..< next_id st'}"
proof (induction rule: grows.induct)
  case (same st' st)
  then show ?case by simp
next
  case (insert st st1 i s st2)
  have n: "next_id st \<le> next_id st1" using insert.hyps(1) by (rule grows_next_id)
  have "set (statements st2) = insert s (set (statements st1))"
    using insert.hyps(5) by (metis append_take_drop_id list.simps(15) set_append Un_insert_right)
  then show ?case using insert n by auto
qed

lemma grows_well_formed:
  "grows st st' \<Longrightarrow> well_formed st \<Longrightarrow> well_formed st'"
proof (induction rule: grows.induct)
  case (same st' st)
  then show ?case by (simp add: well_formed_def)
next
  case (insert st st1 i s st2)
  then have wf: "well_formed st1" by simp
  have fresh: "ret_val s \<notin> ret_val ` set (statements st1)"
    using wf insert.hyps(3) unfolding well_formed_def by auto
  have d: "distinct (map ret_val (take i (statements st1)) @ map ret_val (drop i (statements st1)))"
    using wf unfolding well_formed_def by (metis append_take_drop_id map_append)
  have sub: "set (take i (statements st1)) \<subseteq> set (statements st1)"
       "set (drop i (statements st1)) \<subseteq> set (statements st1)"
    by (auto dest: in_set_takeD in_set_dropD)
  have "distinct (map ret_val (statements st2))"
    using d fresh sub unfolding insert.hyps(5) by auto
  moreover have old: "\<forall>t \<in> set (statements st1).
      ret_val t < next_id st2 \<and> (\<forall>u \<in> set (owned t). u < next_id st2)"
    using wf insert.hyps(6) unfolding well_formed_def by (auto intro: less_SucI)
  moreover have "\<forall>u \<in> set (owned s). u < next_id st2"
  proof
    fix u assume "u \<in> set (owned s)"
    then have "u \<in> ret_val ` set (statements st1)" using insert.hyps(4) sub(1) by blast
    then show "u < next_id st2" using old by auto
  qed
  moreover have "ret_val s < next_id st2" using insert.hyps(3,6) by simp
  moreover have "set (statements st2) = Set.insert s (set (statements st1))"
    unfolding insert.hyps(5) by (metis append_take_drop_id list.simps(15) set_append Un_insert_right)
  ultimately show ?case unfolding well_formed_def by simp
qed

section \<open>Effects of the primitive operations\<close>

lemma same_tc_refl: "same_tc st st"
  by (simp add: same_tc_def)

lemma same_tc_trans: "same_tc a b \<Longrightarrow> same_tc b c \<Longrightarrow> same_tc a c"
  by (simp add: same_tc_def)

lemma same_tc_size: "same_tc a b \<Longrightarrow> size_tc b = size_tc a"
  by (simp add: same_tc_def size_tc_def)

lemma same_tc_visible: "same_tc a b \<Longrightarrow> visible b p = visible a p"
  by (simp add: same_tc_def visible_def)

lemma same_tc_grows: "same_tc a b \<Longrightarrow> grows a b"
  by (simp add: same_tc_def grows.same)

lemma same_tc_grows_left: "same_tc a b \<Longrightarrow> grows b c \<Longrightarrow> grows a c"
  using same_tc_grows grows_trans by blast

lemma same_tc_grows_right: "grows a b \<Longrightarrow> same_tc b c \<Longrightarrow> grows a c"
  using same_tc_grows grows_trans by blast

lemma next_float_same: "next_float e st = (r, st') \<Longrightarrow> same_tc st st'"
  by (auto simp: next_float_def same_tc_def)

lemma next_value_same: "next_value e st = (r, st') \<Longrightarrow> same_tc st st'"
  by (auto simp: next_value_def same_tc_def)

lemma set_distance_same: "same_tc st (set_distance st v d)"
  by (simp add: set_distance_def same_tc_def)

lemma choice_same: "choice e st xs = (r, st') \<Longrightarrow> same_tc st st'"
  by (auto simp: choice_def same_tc_def split: if_splits)

lemma choice_member: "choice e st xs = (Inr v, st') \<Longrightarrow> v \<in> set xs"
  by (auto simp: choice_def split: if_splits)

lemma select_from_union_same: "select_from_union e st t = (r, st') \<Longrightarrow> same_tc st st'"
  by (auto simp: select_from_union_def same_tc_refl split: if_splits prod.splits sum.splits
      dest: choice_same)

lemma get_objects_visible: "set (get_objects st t p) \<subseteq> visible st p"
  by (auto simp: get_objects_def visible_def)

lemma slice_to_visible: "0 \<le> p \<Longrightarrow> ret_val ` set (slice_to (statements st) p) \<subseteq> visible st p"
  by (auto simp: slice_to_def insert_index_def visible_def min_def)

lemma add_new_statement:
  assumes n: "new_statement st k t c as = (s, st1)"
    and a: "add_statement st1 s q = (r, st2)"
    and q: "0 \<le> q"
    and o: "set_option c \<union> set as \<subseteq> visible st q"
  shows "grows st st2" and "r = next_id st" and "next_id st \<in> visible st2 (q + 1)"
    and "size_tc st2 = size_tc st + 1" and "next_id st2 = Suc (next_id st)"
    and "statements st2 =
           take (min (nat q) (length (statements st))) (statements st)
           @ s # drop (min (nat q) (length (statements st))) (statements st)"
    and "ret_val s = next_id st"
proof -
  let ?i = "min (nat q) (length (statements st))"
  have s: "s = \<lparr>kind = k, ret_val = next_id st, args = as, callee = c\<rparr>"
    and st1: "statements st1 = statements st" "next_id st1 = Suc (next_id st)"
    using n by (auto simp: new_statement_def new_reference_def)
  show r: "r = next_id st" using a s by (auto simp: add_statement_def)
  show st2: "statements st2 = take ?i (statements st) @ s # drop ?i (statements st)"
    using a q st1 by (auto simp: add_statement_def list_insert_def insert_index_def)
  show n2: "next_id st2 = Suc (next_id st)"
    using a q st1 by (auto simp: add_statement_def)
  show rs: "ret_val s = next_id st" using s by simp
  have ow: "set (owned s) = set_option c \<union> set as"
    using s by (cases c) (auto simp: owned_def)
  have tk: "take ?i (statements st) = take (nat q) (statements st)"
    by (simp add: min_def)
  have "set (owned s) \<subseteq> ret_val ` set (take ?i (statements st))"
    using o ow tk by (simp add: visible_def)
  then show g: "grows st st2"
    using grows.insert[OF grows_refl, of ?i st s st2] rs st2 n2 by simp
  have "s \<in> set (take (nat (q + 1)) (statements st2))"
  proof -
    have "?i < nat (q + 1)" using q by linarith
    moreover have "statements st2 ! ?i = s" using st2 by (simp add: nth_append)
    moreover have "?i < length (statements st2)" using st2 by simp
    ultimately show ?thesis by (metis in_set_conv_nth length_take min_less_iff_conj nth_take)
  qed
  then show "next_id st \<in> visible st2 (q + 1)" using rs by (force simp: visible_def)
  show "size_tc st2 = size_tc st + 1" using st2 by (simp add: size_tc_def)
qed

lemma create_none_effect:
  assumes c: "create_none st t p d = (Inr v, st')" and p: "0 \<le> p"
  shows "grows st st'" and "v = next_id st" and "next_id st \<in> visible st' (p + 1)"
    and "size_tc st' = size_tc st + 1"
proof -
  obtain s st1 where n: "new_statement st NoneStatement t None [] = (s, st1)"
    by (cases "new_statement st NoneStatement t None []")
  obtain r st2 where a: "add_statement st1 s p = (r, st2)"
    by (cases "add_statement st1 s p")
  have o: "set_option None \<union> set [] \<subseteq> visible st p" by simp
  note e = add_new_statement[OF n a p o]
  obtain s' where g: "get_statement st2 p = Inr s'"
    and v: "v = ret_val s'" and st': "st' = set_distance st2 (ret_val s') d"
    using c n a by (auto simp: create_none_def split: sum.splits)
  have pl: "p < size_tc st2" and s': "s' = statements st2 ! nat p"
    using g by (auto simp: get_statement_def split: if_splits)
  have le: "nat p \<le> length (statements st)" using pl e(4) p by (simp add: size_tc_def)
  then have "min (nat p) (length (statements st)) = nat p" by simp
  then have "statements st2 ! nat p = s" using e(6) le by (simp add: nth_append)
  then show vr: "v = next_id st" using v s' e(7) by simp
  have same: "same_tc st2 st'" unfolding st' by (rule set_distance_same)
  show "grows st st'" using e(1) same by (rule same_tc_grows_right)
  show "next_id st \<in> visible st' (p + 1)" using e(3) same_tc_visible[OF same] by simp
  show "size_tc st' = size_tc st + 1" using e(4) same_tc_size[OF same] by simp
qed

lemma create_primitive_effect:
  assumes c: "create_primitive e st t p d = (v, st')" and p: "0 \<le> p"
  shows "grows st st'" and "v = next_id st" and "next_id st \<in> visible st' (p + 1)"
    and "size_tc st' = size_tc st + 1"
proof -
  obtain val st0 where nv: "next_value e st = (val, st0)" by (cases "next_value e st")
  have s0: "same_tc st st0" using nv by (rule next_value_same)
  obtain k ty where kt: "(if t = Some IntT
                 then new_statement st0 (IntPrimitiveStatement val) (Some IntT) None []
                 else if t = Some FloatT
                 then new_statement st0 (FloatPrimitiveStatement val) (Some FloatT) None []
                 else if t = Some BoolT
                 then new_statement st0 (BooleanPrimitiveStatement val) (Some BoolT) None []
                 else new_statement st0 (StringPrimitiveStatement val) (Some StrT) None [])
        = new_statement st0 k ty None []"
    by (cases "t = Some IntT"; cases "t = Some FloatT"; cases "t = Some BoolT") auto
  obtain s st1 where n: "new_statement st0 k ty None [] = (s, st1)"
    by (cases "new_statement st0 k ty None []")
  obtain r st2 where a: "add_statement st1 s p = (r, st2)"
    by (cases "add_statement st1 s p")
  have o: "set_option None \<union> set [] \<subseteq> visible st0 p" by simp
  note e = add_new_statement[OF n a p o]
  have res: "v = r" "st' = set_distance st2 r d"
    using c nv kt n a unfolding create_primitive_def by (auto split: prod.splits)
  have same: "same_tc st2 st'" unfolding res by (rule set_distance_same)
  have n0: "next_id st0 = next_id st" using s0 by (simp add: same_tc_def)
  show "v = next_id st" using res(1) e(2) n0 by simp
  have "grows st st2" using s0 e(1) by (rule same_tc_grows_left)
  then show "grows st st'" using same by (rule same_tc_grows_right)
  show "next_id st \<in> visible st' (p + 1)" using e(3) same_tc_visible[OF same] n0 by simp
  show "size_tc st' = size_tc st + 1"
    using e(4) same_tc_size[OF same] same_tc_size[OF s0] by simp
qed

section \<open>Every method keeps the contract\<close>

lemma okI:
  "(\<And>r st'. res = Some (Inr r, st') \<Longrightarrow>
        grows st st' \<and> refs r \<subseteq> visible st' (p + (size_tc st' - size_tc st))
        \<and> (fresh \<longrightarrow> (\<forall>v \<in> refs r. next_id st \<le> v))) \<Longrightarrow> ok fresh st p refs res"
  by (simp add: ok_def)

lemma okD:
  "ok fresh st p refs res \<Longrightarrow> res = Some (Inr r, st') \<Longrightarrow>
     grows st st' \<and> refs r \<subseteq> visible st' (p + (size_tc st' - size_tc st))
        \<and> (fresh \<longrightarrow> (\<forall>v \<in> refs r. next_id st \<le> v))"
  by (simp add: ok_def)

lemma ok_weaken: "ok True st p refs res \<Longrightarrow> ok fresh st p refs res"
  by (simp add: ok_def)

lemma ok_exhausted: "sound exhausted"
  by (simp add: sound_def exhausted_def ok_def)

lemma norm_position_nonneg: "0 \<le> norm_position st p"
  by (simp add: norm_position_def size_tc_def)

lemma norm_position_id: "0 \<le> p \<Longrightarrow> norm_position st p = p"
  by (simp add: norm_position_def)

lemma soundD:
  assumes "sound self"
  shows "ok True st (norm_position st p) set_option
           (self_append_generic_statement self st g p d a)"
    and "ok True st (norm_position st p) (\<lambda>v. {v}) (self_add_constructor self st c p d a)"
    and "ok True st (norm_position st p) (\<lambda>v. {v}) (self_add_method self st m p d a)"
    and "ok True st (norm_position st p) (\<lambda>v. {v}) (self_add_field self st fld p d)"
    and "ok True st (norm_position st p) (\<lambda>v. {v}) (self_add_function self st f p d a)"
    and "ok False st (norm_position st p) set (self_satisfy_parameters self st ts cr p d a r)"
    and "0 \<le> p \<Longrightarrow> ok False st p set_option (self_create_or_reuse_variable self st t p d a x)"
    and "0 \<le> p \<Longrightarrow> ok True st p set_option (self_create_variable self st t p d a x)"
    and "0 \<le> p \<Longrightarrow> ok True st p set_option (self_attempt_generation self st t p d a x)"
    and "0 \<le> p \<Longrightarrow> ok True st p set_option
           (self_attempt_generation_for_type self st p d a gs)"
    and "0 \<le> p \<Longrightarrow> ok False st p set_option (self_create_random_type_variable self st p d a)"
  using assms unfolding sound_def by simp_all

lemma sound_create_variable:
  assumes "sound self" "0 \<le> p"
  shows "ok True st p set_option (create_variable self e st t p d a x)"
  unfolding create_variable_def using assms by (rule soundD(9))

lemma sound_attempt_generation_for_type:
  assumes s: "sound self" and p: "0 \<le> p"
  shows "ok True st p set_option (attempt_generation_for_type self e st p d a gs)"
proof (rule okI)
  fix r st'
  assume run: "attempt_generation_for_type self e st p d a gs = Some (Inr r, st')"
  obtain g st1 where ch: "choice e st gs = (Inr g, st1)"
    and sub: "self_append_generic_statement self st1 g p (d + 1) a = Some (Inr r, st')"
    using run unfolding attempt_generation_for_type_def
    by (auto split: prod.splits sum.splits)
  have same: "same_tc st st1" using ch by (rule choice_same)
  note k = okD[OF soundD(1)[OF s] sub]
  have "grows st st'" using same k by (blast intro: same_tc_grows_left)
  then show "grows st st' \<and>
       set_option r \<subseteq> visible st' (p + (size_tc st' - size_tc st)) \<and>
       (True \<longrightarrow> (\<forall>v\<in>set_option r. next_id st \<le> v))"
    using k same same_tc_size[OF same] norm_position_id[OF p]
    by (simp add: same_tc_def)
qed

lemma sound_attempt_generation:
  assumes s: "sound self" and p: "0 \<le> p"
  shows "ok True st p set_option (attempt_generation self e st t p d a x)"
proof (rule okI)
  fix r st'
  assume run: "attempt_generation self e st t p d a x = Some (Inr r, st')"
  show "grows st st' \<and> set_option r \<subseteq> visible st' (p + (size_tc st' - size_tc st)) \<and>
       (True \<longrightarrow> (\<forall>v\<in>set_option r. next_id st \<le> v))"
  proof (cases r)
    case None
    have "grows st st'"
      using run None unfolding attempt_generation_def
      by (auto simp: returning_def grows_refl split: option.splits if_splits prod.splits
          sum.splits dest!: next_float_same same_tc_grows
          dest: okD[OF soundD(10)[OF s p]])
    then show ?thesis using None by simp
  next
    case (Some v)
    then obtain ty where ty: "t = Some ty"
      using run unfolding attempt_generation_def by (cases t) auto
    consider (prim) "is_primitive_type t" "create_primitive e st t p d = (v, st')"
      | (gen) "self_attempt_generation_for_type self st p d a (get_generators_for e ty)
                 = Some (Inr r, st')"
      | (none) f st1 where "next_float e st = (f, st1)"
          "create_none st1 t p d = (Inr v, st')"
      using run Some ty unfolding attempt_generation_def
      by (auto simp: returning_def split: if_splits prod.splits sum.splits)
    then show ?thesis
    proof cases
      case prim
      note e = create_primitive_effect[OF prim(2) p]
      show ?thesis using Some e by simp
    next
      case gen
      from okD[OF soundD(10)[OF s p] gen] show ?thesis by simp
    next
      case none
      have same: "same_tc st st1" using none(1) by (rule next_float_same)
      note e = create_none_effect[OF none(2) p]
      have "grows st st'" using same e(1) by (rule same_tc_grows_left)
      then show ?thesis
        using Some e same same_tc_size[OF same]
        by (simp add: same_tc_def)
    qed
  qed
qed

lemma add_finish:
  assumes g: "grows st st1" and P: "0 \<le> P"
    and refs: "set_option c \<union> set as \<subseteq> visible st1 (P + (size_tc st1 - size_tc st))"
    and n: "new_statement st1 k t c as = (s, st2)"
    and a: "add_statement st2 s (P + size_tc st1 - size_tc st) = (v, st')"
  shows "grows st st' \<and> {v} \<subseteq> visible st' (P + (size_tc st' - size_tc st))
         \<and> (True \<longrightarrow> (\<forall>u \<in> {v}. next_id st \<le> u))"
proof -
  let ?q = "P + size_tc st1 - size_tc st"
  have le: "size_tc st \<le> size_tc st1" using g by (rule grows_size_le)
  then have q: "0 \<le> ?q" using P by simp
  have refs': "set_option c \<union> set as \<subseteq> visible st1 ?q"
    using refs by (simp add: algebra_simps)
  note e = add_new_statement[OF n a q refs']
  have "grows st st'" using e(1) g by (rule grows_trans)
  moreover have "?q + 1 = P + (size_tc st' - size_tc st)" using e(4) by simp
  then have "v \<in> visible st' (P + (size_tc st' - size_tc st))"
    using e(3) unfolding e(2) by metis
  moreover have "next_id st \<le> v" using e(2) grows_next_id[OF g] by simp
  ultimately show ?thesis by simp
qed

lemma sound_append_generic_statement:
  assumes s: "sound self"
  shows "ok True st (norm_position st p) set_option (append_generic_statement self e st g p d a)"
proof (rule okI)
  fix r st'
  assume run: "append_generic_statement self e st g p d a = Some (Inr r, st')"
  let ?np = "if p = - 1 then size_tc st else p"
  have np: "norm_position st ?np = norm_position st p"
    by (simp add: norm_position_def)
  show "grows st st' \<and> set_option r \<subseteq> visible st' (norm_position st p + (size_tc st' - size_tc st))
        \<and> (True \<longrightarrow> (\<forall>v\<in>set_option r. next_id st \<le> v))"
  proof (cases g)
    case (Constructor c)
    then obtain v where "self_add_constructor self st c ?np d a = Some (Inr v, st')" "r = Some v"
      using run unfolding append_generic_statement_def
      by (auto simp: Let_def split: option.splits sum.splits prod.splits)
    then show ?thesis using okD[OF soundD(2)[OF s], of st c ?np d a v st'] np by simp
  next
    case (Method m)
    then obtain v where "self_add_method self st m ?np d a = Some (Inr v, st')" "r = Some v"
      using run unfolding append_generic_statement_def
      by (auto simp: Let_def split: option.splits sum.splits prod.splits)
    then show ?thesis using okD[OF soundD(3)[OF s], of st m ?np d a v st'] np by simp
  next
    case (Function f)
    then obtain v where "self_add_function self st f ?np d a = Some (Inr v, st')" "r = Some v"
      using run unfolding append_generic_statement_def
      by (auto simp: Let_def split: option.splits sum.splits prod.splits)
    then show ?thesis using okD[OF soundD(5)[OF s], of st f ?np d a v st'] np by simp
  next
    case (Field fld)
    then obtain v where "self_add_field self st fld ?np d = Some (Inr v, st')" "r = Some v"
      using run unfolding append_generic_statement_def
      by (auto simp: Let_def split: option.splits sum.splits prod.splits)
    then show ?thesis using okD[OF soundD(4)[OF s], of st fld ?np d v st'] np by simp
  next
    case (Unrecognized u)
    then show ?thesis using run unfolding append_generic_statement_def by (simp add: Let_def)
  qed
qed

lemma sound_add_constructor:
  assumes s: "sound self"
  shows "ok True st (norm_position st p) (\<lambda>v. {v}) (add_constructor self e st c p d a)"
proof (rule okI)
  fix v st'
  assume run: "add_constructor self e st c p d a = Some (Inr v, st')"
  let ?P = "norm_position st p"
  obtain params st1 stmt st2 where
    sp: "self_satisfy_parameters self st (parameters (c_inferred_signature c)) None ?P (d + 1) a True
           = Some (Inr params, st1)"
    and n: "new_statement st1 (ConstructorStatement c) (Some (c_owner c)) None params = (stmt, st2)"
    and ad: "add_statement st2 stmt (?P + size_tc st1 - size_tc st) = (v, st')"
    using run unfolding add_constructor_def norm_position_def
    by (auto simp: Let_def split: if_splits option.splits sum.splits prod.splits)
  have P: "0 \<le> ?P" by (rule norm_position_nonneg)
  note k = okD[OF soundD(6)[OF s] sp]
  have refs: "set_option None \<union> set params \<subseteq> visible st1 (?P + (size_tc st1 - size_tc st))"
    using k norm_position_id[OF P] by simp
  show "grows st st' \<and> {v} \<subseteq> visible st' (?P + (size_tc st' - size_tc st))
         \<and> (True \<longrightarrow> (\<forall>u \<in> {v}. next_id st \<le> u))"
    using add_finish[OF _ P refs n ad] k by blast
qed

lemma sound_add_function:
  assumes s: "sound self"
  shows "ok True st (norm_position st p) (\<lambda>v. {v}) (add_function self e st f p d a)"
proof (rule okI)
  fix v st'
  assume run: "add_function self e st f p d a = Some (Inr v, st')"
  let ?P = "norm_position st p"
  obtain params st1 stmt st2 where
    sp: "self_satisfy_parameters self st (parameters (f_inferred_signature f)) None ?P (d + 1) a True
           = Some (Inr params, st1)"
    and n: "new_statement st1 (FunctionStatement f) (return_type (f_inferred_signature f))
              None params = (stmt, st2)"
    and ad: "add_statement st2 stmt (?P + size_tc st1 - size_tc st) = (v, st')"
    using run unfolding add_function_def norm_position_def
    by (auto simp: Let_def split: if_splits option.splits sum.splits prod.splits)
  have P: "0 \<le> ?P" by (rule norm_position_nonneg)
  note k = okD[OF soundD(6)[OF s] sp]
  have refs: "set_option None \<union> set params \<subseteq> visible st1 (?P + (size_tc st1 - size_tc st))"
    using k norm_position_id[OF P] by simp
  show "grows st st' \<and> {v} \<subseteq> visible st' (?P + (size_tc st' - size_tc st))
         \<and> (True \<longrightarrow> (\<forall>u \<in> {v}. next_id st \<le> u))"
    using add_finish[OF _ P refs n ad] k by blast
qed

lemma sound_add_field:
  assumes s: "sound self"
  shows "ok True st (norm_position st p) (\<lambda>v. {v}) (add_field self e st fld p d)"
proof (rule okI)
  fix v st'
  assume run: "add_field self e st fld p d = Some (Inr v, st')"
  let ?P = "norm_position st p"
  obtain cr st1 stmt st2 where
    sp: "self_create_or_reuse_variable self st (Some (fld_owner fld)) ?P d False None
           = Some (Inr (Some cr), st1)"
    and n: "new_statement st1 (FieldStatement fld) (fld_type fld) (Some cr) [] = (stmt, st2)"
    and ad: "add_statement st2 stmt (?P + size_tc st1 - size_tc st) = (v, st')"
    using run unfolding add_field_def norm_position_def
    by (auto simp: Let_def split: if_splits option.splits sum.splits prod.splits)
  have P: "0 \<le> ?P" by (rule norm_position_nonneg)
  note k = okD[OF soundD(7)[OF s P] sp]
  have refs: "set_option (Some cr) \<union> set [] \<subseteq> visible st1 (?P + (size_tc st1 - size_tc st))"
    using k by simp
  show "grows st st' \<and> {v} \<subseteq> visible st' (?P + (size_tc st' - size_tc st))
         \<and> (True \<longrightarrow> (\<forall>u \<in> {v}. next_id st \<le> u))"
    using add_finish[OF _ P refs n ad] k by blast
qed

lemma sound_add_method:
  assumes s: "sound self"
  shows "ok True st (norm_position st p) (\<lambda>v. {v}) (add_method self e st m p d a)"
proof (rule okI)
  fix v st'
  assume run: "add_method self e st m p d a = Some (Inr v, st')"
  let ?P = "norm_position st p"
  obtain cr st1 params st2 stmt st3 where
    c: "self_create_or_reuse_variable self st (Some (m_owner m)) ?P d True None
           = Some (Inr (Some cr), st1)"
    and sp: "self_satisfy_parameters self st1 (parameters (m_inferred_signature m)) None ?P
               (d + 1) a True = Some (Inr params, st2)"
    and n: "new_statement st2 (MethodStatement m) (return_type (m_inferred_signature m))
              (Some cr) params = (stmt, st3)"
    and ad: "add_statement st3 stmt (?P + size_tc st2 - size_tc st) = (v, st')"
    using run unfolding add_method_def norm_position_def
    by (auto simp: Let_def split: if_splits option.splits sum.splits prod.splits)
  have P: "0 \<le> ?P" by (rule norm_position_nonneg)
  note k1 = okD[OF soundD(7)[OF s P] c]
  note k2 = okD[OF soundD(6)[OF s] sp]
  have g1: "grows st st1" and g2: "grows st1 st2" using k1 k2 by simp_all
  have g: "grows st st2" using g2 g1 by (rule grows_trans)
  have le: "size_tc st \<le> size_tc st1" using g1 by (rule grows_size_le)
  have "cr \<in> visible st1 (?P + (size_tc st1 - size_tc st))" using k1 by simp
  from grows_visible[OF g2 this]
  have cr: "cr \<in> visible st2 (?P + (size_tc st2 - size_tc st))" by (simp add: algebra_simps)
  have "set params \<subseteq> visible st2 (?P + (size_tc st2 - size_tc st1))"
    using k2 norm_position_id[OF P] by simp
  moreover have "visible st2 (?P + (size_tc st2 - size_tc st1))
      \<subseteq> visible st2 (?P + (size_tc st2 - size_tc st))"
    using le by (intro visible_mono) simp
  ultimately have refs: "set_option (Some cr) \<union> set params
      \<subseteq> visible st2 (?P + (size_tc st2 - size_tc st))"
    using cr by auto
  show "grows st st' \<and> {v} \<subseteq> visible st' (?P + (size_tc st' - size_tc st))
         \<and> (True \<longrightarrow> (\<forall>u \<in> {v}. next_id st \<le> u))"
    by (rule add_finish[OF g P refs n ad])
qed

lemma loop_ok:
  assumes s: "sound self"
  shows "0 \<le> p \<Longrightarrow> set acc \<subseteq> visible st p
    \<Longrightarrow> satisfy_parameters_loop self st ts cr p d a r acc = Some (Inr vs, st')
    \<Longrightarrow> grows st st' \<and> set vs \<subseteq> visible st' (p + (size_tc st' - size_tc st))"
proof (induction ts arbitrary: st p acc)
  case Nil
  then show ?case by (simp add: grows_refl)
next
  case (Cons t ts)
  let ?call = "if r then self_create_or_reuse_variable self st t p d a cr
               else self_create_variable self st t p d a cr"
  obtain var st1 where
    c: "?call = Some (Inr (Some var), st1)"
    and rest: "satisfy_parameters_loop self st1 ts cr (p + (size_tc st1 - size_tc st)) d a r
                 (acc @ [var]) = Some (Inr vs, st')"
    using Cons.prems(3)
    by (auto simp: Let_def split: option.splits sum.splits prod.splits)
  have "ok False st p set_option ?call"
    using soundD(7)[OF s Cons.prems(1)] ok_weaken[OF soundD(8)[OF s Cons.prems(1)]]
    by (cases r) auto
  note k = okD[OF this c]
  have g1: "grows st st1" using k by simp
  have le: "size_tc st \<le> size_tc st1" using g1 by (rule grows_size_le)
  let ?p' = "p + (size_tc st1 - size_tc st)"
  have p': "0 \<le> ?p'" using le Cons.prems(1) by simp
  have "set acc \<subseteq> visible st1 ?p'" using grows_visible[OF g1] Cons.prems(2) by blast
  then have acc': "set (acc @ [var]) \<subseteq> visible st1 ?p'" using k by simp
  note ih = Cons.IH[OF p' acc' rest]
  have "grows st st'" using ih g1 by (blast intro: grows_trans)
  moreover have "?p' + (size_tc st' - size_tc st1) = p + (size_tc st' - size_tc st)" by simp
  ultimately show ?case using ih by simp
qed

lemma sound_satisfy_parameters:
  assumes s: "sound self"
  shows "ok False st (norm_position st p) set (satisfy_parameters self e st ts cr p d a r)"
proof (rule okI)
  fix vs st'
  assume run: "satisfy_parameters self e st ts cr p d a r = Some (Inr vs, st')"
  then have l: "satisfy_parameters_loop self st (map snd ts) cr (norm_position st p) d a r []
          = Some (Inr vs, st')"
    unfolding satisfy_parameters_def norm_position_def by (simp add: Let_def)
  have "set [] \<subseteq> visible st (norm_position st p)" by simp
  from loop_ok[OF s norm_position_nonneg this l]
  show "grows st st' \<and> set vs \<subseteq> visible st' (norm_position st p + (size_tc st' - size_tc st))
        \<and> (False \<longrightarrow> (\<forall>v\<in>set vs. next_id st \<le> v))"
    by simp
qed

lemma returning_Inr:
  "returning x = Some (Inr r, st') \<longleftrightarrow> (\<exists>v. x = (Inr v, st') \<and> r = Some v)"
  by (cases x) (auto simp: returning_def split: sum.splits)

lemma sound_create_random_type_variable:
  assumes s: "sound self" and p: "0 \<le> p"
  shows "ok False st p set_option (create_random_type_variable self e st p d a)"
proof (rule okI)
  fix r st'
  assume run: "create_random_type_variable self e st p d a = Some (Inr r, st')"
  obtain ty st1 where ch: "choice e st (map fst (generators e) @ PRIMITIVES) = (Inr ty, st1)"
    and sub: "self_create_or_reuse_variable self st1 (Some ty) p (d + 1) a None
                = Some (Inr r, st')"
    using run unfolding create_random_type_variable_def
    by (auto simp: Let_def split: prod.splits sum.splits)
  have same: "same_tc st st1" using ch by (rule choice_same)
  note k = okD[OF soundD(7)[OF s p] sub]
  have "grows st st'" using same k by (blast intro: same_tc_grows_left)
  then show "grows st st' \<and>
       set_option r \<subseteq> visible st' (p + (size_tc st' - size_tc st)) \<and>
       (False \<longrightarrow> (\<forall>v\<in>set_option r. next_id st \<le> v))"
    using k same_tc_size[OF same] by simp
qed

lemma sound_create_or_reuse_variable:
  assumes s: "sound self" and p: "0 \<le> p"
  shows "ok False st p set_option (create_or_reuse_variable self e st t p d a x)"
proof (rule okI)
  fix r st'
  assume run: "create_or_reuse_variable self e st t p d a x = Some (Inr r, st')"
  obtain T st0 where su: "select_from_union e st t = (Inr T, st0)"
    using run unfolding create_or_reuse_variable_def
    by (auto split: prod.splits sum.splits)
  obtain reuse st1 where nf: "next_float e st0 = (reuse, st1)"
    by (cases "next_float e st0")
  have same: "same_tc st st1"
    using select_from_union_same[OF su] next_float_same[OF nf] by (rule same_tc_trans)
  let ?objects = "get_objects st1 T p"
  let ?vars = "map ret_val (slice_to (statements st1) p)"
  have goal1: "grows st1 st' \<and> set_option r \<subseteq> visible st' (p + (size_tc st' - size_tc st1))"
  proof -
    consider
      (reuse) "returning (choice e st1 ?objects) = Some (Inr r, st')"
    | (any) "returning (choice e st1 ?vars) = Some (Inr r, st')"
    | (created) "self_create_variable self st1 T p d a x = Some (Inr r, st')"
    | (random) st2 f st3 where "self_create_variable self st1 T p d a x = Some (Inr None, st2)"
        "next_float e st2 = (f, st3)"
        "self_create_random_type_variable self st3 p d a = Some (Inr r, st')"
    | (none) st2 f st3 where "self_create_variable self st1 T p d a x = Some (Inr None, st2)"
        "next_float e st2 = (f, st3)"
        "returning (create_none st3 T p d) = Some (Inr r, st')"
    | (last) st2 where "self_create_variable self st1 T p d a x = Some (Inr None, st2)"
        "returning (choice e st2 ?objects) = Some (Inr r, st')"
      using run su nf unfolding create_or_reuse_variable_def
      by (simp add: Let_def split: if_splits option.splits sum.splits prod.splits)
    then show ?thesis
    proof cases
      case reuse
      then obtain v where c: "choice e st1 ?objects = (Inr v, st')" and r: "r = Some v"
        unfolding returning_Inr by blast
      have sm: "same_tc st1 st'" using c by (rule choice_same)
      have "v \<in> visible st1 p" using choice_member[OF c] get_objects_visible by blast
      then show ?thesis
        using r sm same_tc_grows[OF sm] same_tc_visible[OF sm] same_tc_size[OF sm] by simp
    next
      case any
      then obtain v where c: "choice e st1 ?vars = (Inr v, st')" and r: "r = Some v"
        unfolding returning_Inr by blast
      have sm: "same_tc st1 st'" using c by (rule choice_same)
      have "v \<in> visible st1 p" using choice_member[OF c] slice_to_visible[OF p] by auto
      then show ?thesis
        using r sm same_tc_grows[OF sm] same_tc_visible[OF sm] same_tc_size[OF sm] by simp
    next
      case created
      from okD[OF soundD(8)[OF s p] created] show ?thesis by simp
    next
      case random
      note k1 = okD[OF soundD(8)[OF s p] random(1)]
      have sm: "same_tc st2 st3" using random(2) by (rule next_float_same)
      note k2 = okD[OF soundD(11)[OF s p] random(3)]
      have g13: "grows st1 st3" using k1 sm by (blast intro: same_tc_grows_right)
      have g: "grows st1 st'" using k2 g13 by (blast intro: grows_trans)
      have "size_tc st1 \<le> size_tc st3" using g13 by (rule grows_size_le)
      then have "visible st' (p + (size_tc st' - size_tc st3))
          \<subseteq> visible st' (p + (size_tc st' - size_tc st1))"
        by (intro visible_mono) simp
      then show ?thesis using g k2 by blast
    next
      case none
      then obtain v where c: "create_none st3 T p d = (Inr v, st')" and r: "r = Some v"
        unfolding returning_Inr by blast
      note k1 = okD[OF soundD(8)[OF s p] none(1)]
      have sm: "same_tc st2 st3" using none(2) by (rule next_float_same)
      note e = create_none_effect[OF c p]
      have g13: "grows st1 st3" using k1 sm by (blast intro: same_tc_grows_right)
      have g: "grows st1 st'" using e(1) g13 by (rule grows_trans)
      have "size_tc st1 \<le> size_tc st3" using g13 by (rule grows_size_le)
      then have "visible st' (p + 1) \<subseteq> visible st' (p + (size_tc st' - size_tc st1))"
        using e(4) by (intro visible_mono) simp
      then show ?thesis using g e(2,3) r by auto
    next
      case last
      then obtain v where c: "choice e st2 ?objects = (Inr v, st')" and r: "r = Some v"
        unfolding returning_Inr by blast
      note k1 = okD[OF soundD(8)[OF s p] last(1)]
      have g12: "grows st1 st2" using k1 by simp
      have sm: "same_tc st2 st'" using c by (rule choice_same)
      have "v \<in> visible st1 p" using choice_member[OF c] get_objects_visible by blast
      from grows_visible[OF g12 this]
      have "v \<in> visible st' (p + (size_tc st' - size_tc st1))"
        using same_tc_visible[OF sm] same_tc_size[OF sm] by simp
      moreover have "grows st1 st'" using g12 sm by (rule same_tc_grows_right)
      ultimately show ?thesis using r by simp
    qed
  qed
  then show "grows st st' \<and>
       set_option r \<subseteq> visible st' (p + (size_tc st' - size_tc st)) \<and>
       (False \<longrightarrow> (\<forall>v\<in>set_option r. next_id st \<le> v))"
    using same same_tc_grows_left[OF same] same_tc_size[OF same] by simp
qed

lemma sound_methods: "sound self \<Longrightarrow> sound (methods self e)"
  unfolding sound_def[of "methods self e"] methods_simps
  using sound_append_generic_statement sound_add_constructor sound_add_method sound_add_field
    sound_add_function sound_satisfy_parameters sound_create_or_reuse_variable
    sound_create_variable sound_attempt_generation sound_attempt_generation_for_type
    sound_create_random_type_variable
  by simp

lemma sound_test_factory: "sound (test_factory n e)"
  by (induction n) (simp_all add: ok_exhausted sound_methods)

section \<open>Positions in a grown test case\<close>

lemma position_from_take:
  "u \<in> ret_val ` set (take i ss) \<Longrightarrow> \<exists>j < i. position_from ss u k = Some (k + j)"
proof (induction ss arbitrary: i k)
  case Nil
  then show ?case by simp
next
  case (Cons s ss)
  then obtain i' where i: "i = Suc i'" by (cases i) auto
  show ?case
  proof (cases "ret_val s = u")
    case True
    then show ?thesis using i by auto
  next
    case False
    then have "u \<in> ret_val ` set (take i' ss)" using Cons.prems i by auto
    from Cons.IH[OF this, of "Suc k"] obtain j where "j < i'"
      "position_from ss u (Suc k) = Some (Suc k + j)" by blast
    then show ?thesis using False i by (intro exI[of _ "Suc j"]) simp
  qed
qed

lemma position_from_distinct:
  "distinct (map ret_val ss) \<Longrightarrow> i < length ss
     \<Longrightarrow> position_from ss (ret_val (ss ! i)) k = Some (k + i)"
proof (induction ss arbitrary: i k)
  case Nil
  then show ?case by simp
next
  case (Cons s ss)
  show ?case
  proof (cases i)
    case 0
    then show ?thesis by simp
  next
    case (Suc i')
    then have "ss ! i' \<in> set ss" using Cons.prems by simp
    moreover have "ret_val s \<notin> ret_val ` set ss" using Cons.prems(1) by simp
    ultimately have "ret_val (ss ! i') \<noteq> ret_val s" by (metis image_eqI)
    then show ?thesis using Cons Suc by simp
  qed
qed

lemma valid_from_positions:
  assumes v: "valid_from k (statements st)" and i: "i < length (statements st)"
    and ki: "k \<le> ret_val (statements st ! i)" and u: "u \<in> set (owned (statements st ! i))"
  shows "\<exists>j < i. get_statement_position st u = Some j"
proof -
  have "u \<in> ret_val ` set (take i (statements st))"
    using v i ki u unfolding valid_from_def by blast
  from position_from_take[OF this, of 0] show ?thesis
    by (simp add: get_statement_position_def)
qed

lemma valid_from_fresh:
  assumes "well_formed st"
  shows "valid_from (next_id st) (statements st)"
  unfolding valid_from_def
proof (intro allI impI)
  fix i
  assume i: "i < length (statements st)" and k: "next_id st \<le> ret_val (statements st ! i)"
  have "statements st ! i \<in> set (statements st)" using i by simp
  then have "ret_val (statements st ! i) < next_id st"
    using assms unfolding well_formed_def by blast
  then show "set (owned (statements st ! i)) \<subseteq> ret_val ` set (take i (statements st))"
    using k by simp
qed

lemma position_from_Some:
  "position_from ss u k = Some m \<Longrightarrow> k \<le> m \<and> m - k < length ss \<and> ret_val (ss ! (m - k)) = u"
proof (induction ss arbitrary: k)
  case Nil
  then show ?case by simp
next
  case (Cons s ss)
  show ?case
  proof (cases "ret_val s = u")
    case True
    then show ?thesis using Cons.prems by simp
  next
    case False
    then have "position_from ss u (Suc k) = Some m" using Cons.prems by simp
    from Cons.IH[OF this]
    have ih: "Suc k \<le> m" "m - Suc k < length ss" "ret_val (ss ! (m - Suc k)) = u" by simp_all
    have "m - k = Suc (m - Suc k)" using ih(1) by arith
    then show ?thesis using ih by simp
  qed
qed

lemma dependency_ordered_valid:
  assumes wf: "well_formed st" and d: "dependency_ordered st"
  shows "valid_from 0 (statements st)"
  unfolding valid_from_def
proof (intro allI impI subsetI)
  fix i u
  assume i: "i < length (statements st)"
    and u: "u \<in> set (owned (statements st ! i))"
  then obtain j where j: "j < i" "get_statement_position st u = Some j"
    using d unfolding dependency_ordered_def by blast
  from position_from_Some[of "statements st" u 0 j] j
  have "ret_val (statements st ! j) = u" by (simp add: get_statement_position_def)
  moreover have "statements st ! j \<in> set (take i (statements st))"
  proof -
    have "j < length (take i (statements st))" using j(1) i by simp
    then have "take i (statements st) ! j \<in> set (take i (statements st))" by (rule nth_mem)
    then show ?thesis using j(1) by simp
  qed
  ultimately show "u \<in> ret_val ` set (take i (statements st))" by blast
qed

lemma grows_new_statements:
  assumes g: "grows st st'" and wf: "well_formed st"
  shows "\<forall>i < length (statements st').
           ret_val (statements st' ! i) \<notin> ret_val ` set (statements st) \<longrightarrow>
             get_statement_position st' (ret_val (statements st' ! i)) = Some i
             \<and> (\<forall>u \<in> set (owned (statements st' ! i)).
                  \<exists>j < i. get_statement_position st' u = Some j)"
proof (intro allI impI)
  fix i
  assume i: "i < length (statements st')"
    and new: "ret_val (statements st' ! i) \<notin> ret_val ` set (statements st)"
  have wf': "well_formed st'" using g wf by (rule grows_well_formed)
  have "ret_val (statements st' ! i) \<in> ret_val ` set (statements st')" using i by simp
  then have ge: "next_id st \<le> ret_val (statements st' ! i)"
    using grows_ids[OF g] new by auto
  have v: "valid_from (next_id st) (statements st')"
    using grows_valid_from[OF g valid_from_fresh[OF wf]] .
  have "get_statement_position st' (ret_val (statements st' ! i)) = Some i"
    using position_from_distinct[of "statements st'" i 0] wf' i
    by (simp add: get_statement_position_def well_formed_def)
  then show "get_statement_position st' (ret_val (statements st' ! i)) = Some i
             \<and> (\<forall>u \<in> set (owned (statements st' ! i)).
                  \<exists>j < i. get_statement_position st' u = Some j)"
    using valid_from_positions[OF v i ge] by blast
qed

lemma grows_dependency_ordered:
  assumes g: "grows st st'" and wf: "well_formed st" and d: "dependency_ordered st"
  shows "dependency_ordered st'"
proof -
  have "valid_from 0 (statements st')"
    using grows_valid_from[OF g dependency_ordered_valid[OF wf d]] .
  then have "\<exists>j < i. get_statement_position st' u = Some j"
    if "i < length (statements st')" "u \<in> set (owned (statements st' ! i))" for i u
    using valid_from_positions[of 0 st' i u] that by simp
  then show ?thesis unfolding dependency_ordered_def by blast
qed

lemma visible_ids: "visible st p \<subseteq> ret_val ` set (statements st)"
  unfolding visible_def by (auto dest: in_set_takeD)

lemma fresh_not_old:
  assumes "well_formed st" and "next_id st \<le> v"
  shows "v \<notin> ret_val ` set (statements st)"
proof
  assume "v \<in> ret_val ` set (statements st)"
  then obtain s where "s \<in> set (statements st)" "ret_val s = v" by blast
  then have "v < next_id st" using assms(1) unfolding well_formed_def by blast
  then show False using assms(2) by simp
qed

lemma fresh_not_owned:
  assumes "well_formed st" and "next_id st \<le> v" and "s \<in> set (statements st)"
  shows "v \<notin> set (owned s)"
proof
  assume "v \<in> set (owned s)"
  then have "v < next_id st" using assms(1,3) unfolding well_formed_def by blast
  then show False using assms(2) by simp
qed

text \<open>
  Claim C2.  Whenever \<open>add_constructor\<close>, \<open>add_method\<close>, \<open>add_function\<close> or \<open>add_field\<close>
  returns a reference, every statement the call inserted (those whose reference was
  not in the test case before) sits at the position of its own reference and owns
  only references whose defining position is strictly smaller; the returned reference
  is defined by one of these new statements; and a test case that was in dependency
  order before the call is in dependency order after it.  This holds at every
  position and every depth of calls, whatever the randomness source draws.
\<close>

theorem dependency_order_preserved:
  assumes wf: "well_formed st"
    and run: "self_add_constructor (test_factory n e) st c p d a = Some (Inr v, st')
            \<or> self_add_method (test_factory n e) st m p d a = Some (Inr v, st')
            \<or> self_add_function (test_factory n e) st f p d a = Some (Inr v, st')
            \<or> self_add_field (test_factory n e) st fld p d = Some (Inr v, st')"
  shows "(\<forall>i < length (statements st').
            ret_val (statements st' ! i) \<notin> ret_val ` set (statements st) \<longrightarrow>
              get_statement_position st' (ret_val (statements st' ! i)) = Some i
              \<and> (\<forall>u \<in> set (owned (statements st' ! i)).
                   \<exists>j < i. get_statement_position st' u = Some j))
       \<and> (\<exists>q < length (statements st').
            ret_val (statements st' ! q) = v \<and> v \<notin> ret_val ` set (statements st))
       \<and> (dependency_ordered st \<longrightarrow> dependency_ordered st')"
proof -
  let ?P = "norm_position st p"
  let ?k = "grows st st' \<and> {v} \<subseteq> visible st' (?P + (size_tc st' - size_tc st))
        \<and> (True \<longrightarrow> (\<forall>u \<in> {v}. next_id st \<le> u))"
  note s = sound_test_factory[of n e]
  have k: ?k
    using run
  proof (elim disjE)
    assume "self_add_constructor (test_factory n e) st c p d a = Some (Inr v, st')"
    then show ?k by (rule okD[OF soundD(2)[OF s]])
  next
    assume "self_add_method (test_factory n e) st m p d a = Some (Inr v, st')"
    then show ?k by (rule okD[OF soundD(3)[OF s]])
  next
    assume "self_add_function (test_factory n e) st f p d a = Some (Inr v, st')"
    then show ?k by (rule okD[OF soundD(5)[OF s]])
  next
    assume "self_add_field (test_factory n e) st fld p d = Some (Inr v, st')"
    then show ?k by (rule okD[OF soundD(4)[OF s]])
  qed
  then have g: "grows st st'" by simp
  have "v \<in> visible st' (?P + (size_tc st' - size_tc st))" using k by simp
  then have "v \<in> ret_val ` set (statements st')" using visible_ids by blast
  then obtain q where q: "q < length (statements st')" "ret_val (statements st' ! q) = v"
    by (auto simp: in_set_conv_nth)
  have "next_id st \<le> v" using k by simp
  then have new: "v \<notin> ret_val ` set (statements st)" by (rule fresh_not_old[OF wf])
  have 1: "\<exists>q < length (statements st').
            ret_val (statements st' ! q) = v \<and> v \<notin> ret_val ` set (statements st)"
    using q new by blast
  have 2: "dependency_ordered st \<longrightarrow> dependency_ordered st'"
    using grows_dependency_ordered[OF g wf] by blast
  show ?thesis using grows_new_statements[OF g wf] 1 2 by (intro conjI)
qed

lemmas factory_defs =
  append_generic_statement_def add_constructor_def add_method_def add_field_def add_function_def
  satisfy_parameters_def create_or_reuse_variable_def create_variable_def attempt_generation_def
  attempt_generation_for_type_def create_random_type_variable_def
  select_from_union_def create_none_def create_primitive_def add_primitive_def returning_def
  next_float_def choice_def next_value_def get_generators_for_def size_tc_def get_statement_def
  insert_index_def list_insert_def slice_to_def add_statement_def get_objects_def
  new_reference_def set_distance_def new_statement_def is_primitive_type_def PRIMITIVES_def

lemma unfold_factory:
  "test_factory 1 e = methods exhausted e"
  "test_factory 2 e = methods (test_factory 1 e) e"
  "test_factory 3 e = methods (test_factory 2 e) e"
  "test_factory 4 e = methods (test_factory 3 e) e"
  "test_factory 5 e = methods (test_factory 4 e) e"
  "test_factory 6 e = methods (test_factory 5 e) e"
  by (simp_all add: eval_nat_numeral)

section \<open>The loop over the parameters\<close>

lemma loop_success:
  "satisfy_parameters_loop self st ts cr p d a r acc = Some (Inr vs, st')
     \<Longrightarrow> \<exists>ws. vs = acc @ ws \<and> length ws = length ts \<and> resolved_in_order self r cr d a st p ts ws st'"
proof (induction ts arbitrary: st p acc)
  case Nil
  then show ?case by (auto intro: resolved_in_order.none_left)
next
  case (Cons t ts)
  obtain v st1 where
    c: "resolve self r st t p d a cr = Some (Inr (Some v), st1)"
    and rest: "satisfy_parameters_loop self st1 ts cr (p + (size_tc st1 - size_tc st)) d a r
                 (acc @ [v]) = Some (Inr vs, st')"
    using Cons.prems unfolding resolve_def
    by (auto simp: Let_def split: option.splits sum.splits prod.splits)
  from Cons.IH[OF rest] obtain ws where
    ws: "vs = (acc @ [v]) @ ws" "length ws = length ts"
      "resolved_in_order self r cr d a st1 (p + (size_tc st1 - size_tc st)) ts ws st'"
    by blast
  have "resolved_in_order self r cr d a st p (t # ts) (v # ws) st'"
    using c ws(3) by (rule resolved_in_order.one_more)
  then show ?case using ws by (intro exI[of _ "v # ws"]) simp
qed

lemma loop_failure:
  assumes "resolved_in_order self r cr d a st p pre ws stk"
  shows "(resolve self r stk t (p + (size_tc stk - size_tc st)) d a cr = Some (Inr None, st1)
          \<longrightarrow> satisfy_parameters_loop self st (pre @ t # post) cr p d a r acc
              = Some (Inl (ConstructionFailedException
                    (Failed_to_create_variable t (p + (size_tc stk - size_tc st)))), st1))
       \<and> (resolve self r stk t (p + (size_tc stk - size_tc st)) d a cr = Some (Inl ex, st1)
          \<longrightarrow> satisfy_parameters_loop self st (pre @ t # post) cr p d a r acc
              = Some (Inl ex, st1))"
  using assms
proof (induction arbitrary: acc rule: resolved_in_order.induct)
  case (none_left st p)
  then show ?case by (simp add: resolve_def Let_def)
next
  case (one_more st t' p v st1 ts vs st')
  have e: "p + (size_tc st1 - size_tc st) + (size_tc st' - size_tc st1)
         = p + (size_tc st' - size_tc st)" by simp
  show ?case
    using one_more.hyps(1) one_more.IH[of "acc @ [v]"] unfolding e
    by (simp add: resolve_def Let_def)
qed

lemma loop_fresh:
  assumes s: "sound self"
  shows "0 \<le> p \<Longrightarrow> satisfy_parameters_loop self st ts cr p d a False acc = Some (Inr vs, st')
    \<Longrightarrow> \<exists>ws. vs = acc @ ws \<and> (\<forall>v \<in> set ws. next_id st \<le> v)"
proof (induction ts arbitrary: st p acc)
  case Nil
  then show ?case by simp
next
  case (Cons t ts)
  obtain v st1 where
    c: "self_create_variable self st t p d a cr = Some (Inr (Some v), st1)"
    and rest: "satisfy_parameters_loop self st1 ts cr (p + (size_tc st1 - size_tc st)) d a False
                 (acc @ [v]) = Some (Inr vs, st')"
    using Cons.prems(2)
    by (auto simp: Let_def split: option.splits sum.splits prod.splits)
  note k = okD[OF soundD(8)[OF s Cons.prems(1)] c]
  have g1: "grows st st1" using k by simp
  have p': "0 \<le> p + (size_tc st1 - size_tc st)"
    using grows_size_le[OF g1] Cons.prems(1) by simp
  from Cons.IH[OF p' rest] obtain ws where
    ws: "vs = (acc @ [v]) @ ws" "\<forall>u \<in> set ws. next_id st1 \<le> u" by blast
  have "\<forall>u \<in> set (v # ws). next_id st \<le> u"
    using ws(2) k grows_next_id[OF g1] by auto
  then show ?case using ws(1) by (intro exI[of _ "v # ws"]) simp
qed

text \<open>
  Claim C8.  When \<open>satisfy_parameters\<close> is called with
  \<open>can_reuse_existing_variables = False\<close> and returns, every reference of the returned
  list is the return value of a statement of the resulting test case, is not the
  return value of any statement the test case had before the call, and is owned by
  none of them.
\<close>

theorem forced_creation_returns_new:
  assumes wf: "well_formed st"
    and run: "self_satisfy_parameters (test_factory n e) st ts cr p d a False = Some (Inr vs, st')"
  shows "\<forall>v \<in> set vs. v \<in> ret_val ` set (statements st')
           \<and> v \<notin> ret_val ` set (statements st)
           \<and> (\<forall>s \<in> set (statements st). v \<notin> set (owned s))"
proof
  fix v assume v: "v \<in> set vs"
  obtain k where n: "n = Suc k" using run by (cases n) (auto simp: exhausted_def)
  note s = sound_test_factory[of k e]
  have l: "satisfy_parameters_loop (test_factory k e) st (map snd ts) cr (norm_position st p) d a
             False [] = Some (Inr vs, st')"
    using run unfolding n by (simp add: satisfy_parameters_def norm_position_def Let_def)
  from loop_fresh[OF s norm_position_nonneg l] have fresh: "next_id st \<le> v" using v by simp
  have "set vs \<subseteq> visible st' (norm_position st p + (size_tc st' - size_tc st))"
    using okD[OF soundD(6)[OF sound_test_factory] run] by simp
  then have "v \<in> ret_val ` set (statements st')" using v visible_ids by blast
  then show "v \<in> ret_val ` set (statements st')
           \<and> v \<notin> ret_val ` set (statements st)
           \<and> (\<forall>s \<in> set (statements st). v \<notin> set (owned s))"
    using fresh_not_old[OF wf fresh] fresh_not_owned[OF wf fresh] by blast
qed

text \<open>
  Claim C4, as amended.  If \<open>satisfy_parameters\<close> returns, its list has exactly one
  reference for each requested parameter type, in declaration order.  It never returns
  a partial list: when the resolution of a parameter yields no value, after the
  parameters before it were resolved, the call raises the construction failure that
  names this type and the current position; when the resolution itself raises, the
  call raises that very exception, whatever it names.
\<close>

theorem satisfy_parameters_all_or_nothing:
  "(self_satisfy_parameters (test_factory (Suc n) e) st ts cr p d a r = Some (Inr vs, st')
      \<longrightarrow> length vs = length ts
          \<and> resolved_in_order (test_factory n e) r cr d a st (norm_position st p) (map snd ts) vs st')
   \<and> (map snd ts = pre @ t # post
       \<and> resolved_in_order (test_factory n e) r cr d a st (norm_position st p) pre ws stk
       \<and> resolve (test_factory n e) r stk t (norm_position st p + (size_tc stk - size_tc st)) d a cr
           = Some (Inr None, st1)
      \<longrightarrow> self_satisfy_parameters (test_factory (Suc n) e) st ts cr p d a r
            = Some (Inl (ConstructionFailedException
                 (Failed_to_create_variable t (norm_position st p + (size_tc stk - size_tc st)))),
                 st1))
   \<and> (map snd ts = pre @ t # post
       \<and> resolved_in_order (test_factory n e) r cr d a st (norm_position st p) pre ws stk
       \<and> resolve (test_factory n e) r stk t (norm_position st p + (size_tc stk - size_tc st)) d a cr
           = Some (Inl ex, st1)
      \<longrightarrow> self_satisfy_parameters (test_factory (Suc n) e) st ts cr p d a r = Some (Inl ex, st1))"
proof -
  have u: "self_satisfy_parameters (test_factory (Suc n) e) st ts cr p d a r
      = satisfy_parameters_loop (test_factory n e) st (map snd ts) cr (norm_position st p) d a r []"
    by (simp add: satisfy_parameters_def norm_position_def Let_def)
  show ?thesis
    unfolding u
    using loop_success[of "test_factory n e" st "map snd ts" cr "norm_position st p" d a r "[]" vs st']
      loop_failure[of "test_factory n e" r cr d a st "norm_position st p" pre ws stk t st1 post "[]" ex]
    by auto
qed

section \<open>Reuse-or-create resolution\<close>

lemma frame_next_float:
  "next_float e st = (r, st') \<Longrightarrow>
     statements st' = statements st \<and> vars st' = vars st \<and> next_id st' = next_id st
     \<and> rng st' = Suc (rng st) \<and> r = floats e (rng st)"
  by (auto simp: next_float_def)

lemma frame_choice:
  "choice e st xs = (r, st') \<Longrightarrow>
     statements st' = statements st \<and> vars st' = vars st \<and> next_id st' = next_id st"
  by (auto simp: choice_def split: if_splits)

lemma frame_select_from_union:
  "select_from_union e st t = (r, st') \<Longrightarrow>
     statements st' = statements st \<and> vars st' = vars st \<and> next_id st' = next_id st"
  by (auto simp: select_from_union_def split: if_splits prod.splits sum.splits dest: frame_choice)

lemma get_objects_frame:
  "statements st' = statements st \<Longrightarrow> vars st' = vars st
     \<Longrightarrow> get_objects st' t p = get_objects st t p"
  by (simp add: get_objects_def)

text \<open>
  Claim C6, as amended.  Let the type the request resolves to (the requested type, or
  for a union the arm that is drawn) have at least one object visible before the
  position, let the reuse probability that applies to it (primitive or object) be 1,
  and let the float drawn be at most 1, as every draw from [0, 1) is.  Then
  reuse-or-create returns one of these objects and the statements of the test case,
  hence its size, are unchanged.
\<close>

theorem deterministic_reuse:
  assumes sel: "select_from_union e st t = (Inr T, st0)"
    and objs: "get_objects st T p \<noteq> []"
    and draw: "floats e (rng st0) \<le> 1"
    and prob: "if is_primitive_type T then primitive_reuse_probability e = 1
               else object_reuse_probability e = 1"
  shows "\<exists>v st'. self_create_or_reuse_variable (test_factory (Suc n) e) st t p d a x
                   = Some (Inr (Some v), st')
           \<and> v \<in> set (get_objects st T p)
           \<and> statements st' = statements st \<and> size_tc st' = size_tc st"
proof -
  obtain reuse st1 where nf: "next_float e st0 = (reuse, st1)" by (cases "next_float e st0")
  note f0 = frame_select_from_union[OF sel]
  note f1 = frame_next_float[OF nf]
  have ob: "get_objects st1 T p = get_objects st T p"
    using f0 f1 by (intro get_objects_frame) simp_all
  have ne: "get_objects st T p \<noteq> []" by (rule objs)
  obtain v st' where ch: "choice e st1 (get_objects st T p) = (Inr v, st')"
    using ne by (auto simp: choice_def)
  have r: "reuse \<le> 1" using f1 draw by simp
  have "self_create_or_reuse_variable (test_factory (Suc n) e) st t p d a x
          = returning (choice e st1 (get_objects st T p))"
    using sel nf ob ne r prob
    by (cases "is_primitive_type T") (simp_all add: create_or_reuse_variable_def Let_def)
  then have "self_create_or_reuse_variable (test_factory (Suc n) e) st t p d a x
          = Some (Inr (Some v), st')"
    using ch by (simp add: returning_def)
  moreover have "v \<in> set (get_objects st T p)" using ch by (rule choice_member)
  moreover have "statements st' = statements st"
    using frame_choice[OF ch] f0 f1 by simp
  ultimately show ?thesis by (auto simp: size_tc_def)
qed







text \<open>
  Claim C7.  Below the recursion bound, an exception raised by the parameter
  satisfaction of \<open>add_constructor\<close> is raised again as the construction failure that
  names the constructor and carries the cause, while \<open>add_function\<close>, \<open>add_method\<close>
  (for its receiver and for its parameters) and \<open>add_field\<close> (for its owner) raise the
  original exception unchanged.  In each case the state is the one the failing call
  left.
\<close>

theorem failure_wrapping:
  "(d \<le> max_recursion e
      \<and> self_satisfy_parameters (test_factory n e) st (parameters (c_inferred_signature c)) None
          (norm_position st p) (d + 1) a True = Some (Inl ex, st1)
      \<longrightarrow> self_add_constructor (test_factory (Suc n) e) st c p d a
            = Some (Inl (ConstructionFailedException (Failed_to_add_constructor c ex)), st1))
   \<and> (d \<le> max_recursion e
      \<and> self_satisfy_parameters (test_factory n e) st (parameters (f_inferred_signature f)) None
          (norm_position st p) (d + 1) a True = Some (Inl ex, st1)
      \<longrightarrow> self_add_function (test_factory (Suc n) e) st f p d a = Some (Inl ex, st1))
   \<and> (d \<le> max_recursion e
      \<and> self_create_or_reuse_variable (test_factory n e) st (Some (m_owner m))
          (norm_position st p) d True None = Some (Inl ex, st1)
      \<longrightarrow> self_add_method (test_factory (Suc n) e) st m p d a = Some (Inl ex, st1))
   \<and> (d \<le> max_recursion e
      \<and> self_create_or_reuse_variable (test_factory n e) st (Some (m_owner m))
          (norm_position st p) d True None = Some (Inr (Some receiver), st1)
      \<and> self_satisfy_parameters (test_factory n e) st1 (parameters (m_inferred_signature m)) None
          (norm_position st p) (d + 1) a True = Some (Inl ex, st2)
      \<longrightarrow> self_add_method (test_factory (Suc n) e) st m p d a = Some (Inl ex, st2))
   \<and> (d \<le> max_recursion e
      \<and> self_create_or_reuse_variable (test_factory n e) st (Some (fld_owner fld))
          (norm_position st p) d False None = Some (Inl ex, st1)
      \<longrightarrow> self_add_field (test_factory (Suc n) e) st fld p d = Some (Inl ex, st1))"
  by (simp add: add_constructor_def add_function_def add_method_def add_field_def
      norm_position_def Let_def)

lemmas example_defs =
  empty_test_case_def example_env_def constructor_C_def one_int_test_case_def constructor_D_def
  function_g_def method_of_int_def method_of_Foo_def field_of_Foo_def broken_catalog_def
  int_template_def outcome_def

section \<open>Variable references and the recursion bound\<close>

lemma final_state_Some: "r = Some (x, st') \<Longrightarrow> final_state r = st'"
  by (simp add: final_state_def)

text \<open>
  Claim C9.  \<open>structural_eq\<close> returns true exactly when its argument is a variable
  reference, the recorded types of the two references are equal as Python compares
  types, and the remap sends the left reference to the right one.
\<close>

theorem structural_eq_iff:
  "structural_eq store self other memo = Inr True \<longleftrightarrow>
     (\<exists>r. other = Reference r \<and> type_eq (variable_type (store self)) (variable_type (store r))
          \<and> memo self = Some r)"
  by (cases other) (auto simp: structural_eq_def split: option.splits)

text \<open>
  Claim C1, as amended.  Called with a recursion depth above \<open>max_recursion\<close>, each of
  \<open>add_constructor\<close>, \<open>add_method\<close>, \<open>add_function\<close> and \<open>add_field\<close> raises the
  construction failure "Max recursion depth reached" and leaves the state, and with it
  the test case, as it was.  \<open>add_primitive\<close> takes no recursion depth: it never fails,
  returns a new reference and inserts one statement, the clone of its template, at
  the position.
\<close>

theorem recursion_bound:
  assumes "recursion_depth > max_recursion e"
  shows "self_add_constructor (test_factory (Suc n) e) st c position recursion_depth allow_none
           = Some (Inl (ConstructionFailedException Max_recursion_depth_reached), st)
       \<and> self_add_method (test_factory (Suc n) e) st m position recursion_depth allow_none
           = Some (Inl (ConstructionFailedException Max_recursion_depth_reached), st)
       \<and> self_add_function (test_factory (Suc n) e) st f position recursion_depth allow_none
           = Some (Inl (ConstructionFailedException Max_recursion_depth_reached), st)
       \<and> self_add_field (test_factory (Suc n) e) st fld position recursion_depth
           = Some (Inl (ConstructionFailedException Max_recursion_depth_reached), st)
       \<and> fst (add_primitive st primitive position) = Inr (next_id st)
       \<and> statements (snd (add_primitive st primitive position))
           = list_insert (statements st) (norm_position st position)
               \<lparr>kind = kind primitive, ret_val = next_id st, args = [], callee = None\<rparr>
       \<and> size_tc (snd (add_primitive st primitive position)) = size_tc st + 1"
proof -
  have "norm_position st position \<noteq> - 1"
    by (simp add: norm_position_def size_tc_def)
  then have "fst (add_primitive st primitive position) = Inr (next_id st)
       \<and> statements (snd (add_primitive st primitive position))
           = list_insert (statements st) (norm_position st position)
               \<lparr>kind = kind primitive, ret_val = next_id st, args = [], callee = None\<rparr>"
    by (simp add: add_primitive_def new_statement_def new_reference_def add_statement_def
        norm_position_def Let_def)
  moreover from this have "size_tc (snd (add_primitive st primitive position)) = size_tc st + 1"
    by (simp add: size_tc_def list_insert_def)
  ultimately show ?thesis
    using assms by (simp add: add_constructor_def add_method_def add_function_def add_field_def)
qed

text \<open>
  Depth 11 against a bound of 10, on a test case of one statement; \<open>add_primitive\<close> on
  the same test case appends its literal.
\<close>

theorem recursion_bound_witness:
  "11 > max_recursion (example_env 0 [])
   \<and> self_add_constructor (test_factory (Suc 0) (example_env 0 [])) one_int_test_case
        constructor_C (- 1) 11 True
       = Some (Inl (ConstructionFailedException Max_recursion_depth_reached), one_int_test_case)
   \<and> self_add_method (test_factory (Suc 0) (example_env 0 [])) one_int_test_case
        method_of_Foo (- 1) 11 True
       = Some (Inl (ConstructionFailedException Max_recursion_depth_reached), one_int_test_case)
   \<and> self_add_function (test_factory (Suc 0) (example_env 0 [])) one_int_test_case
        function_g (- 1) 11 True
       = Some (Inl (ConstructionFailedException Max_recursion_depth_reached), one_int_test_case)
   \<and> self_add_field (test_factory (Suc 0) (example_env 0 [])) one_int_test_case
        field_of_Foo (- 1) 11
       = Some (Inl (ConstructionFailedException Max_recursion_depth_reached), one_int_test_case)
   \<and> fst (add_primitive one_int_test_case int_template (- 1)) = Inr 1
   \<and> statements (snd (add_primitive one_int_test_case int_template (- 1)))
       = [\<lparr>kind = IntPrimitiveStatement 7, ret_val = 0, args = [], callee = None\<rparr>,
          \<lparr>kind = IntPrimitiveStatement 5, ret_val = 1, args = [], callee = None\<rparr>]
   \<and> size_tc (snd (add_primitive one_int_test_case int_template (- 1))) = 2"
proof -
  have h: "11 > max_recursion (example_env 0 [])" by (simp add: example_env_def)
  have n: "next_id one_int_test_case = 1" "size_tc one_int_test_case = 1"
    "kind int_template = IntPrimitiveStatement 5"
    "list_insert (statements one_int_test_case) (norm_position one_int_test_case (- 1))
       \<lparr>kind = IntPrimitiveStatement 5, ret_val = 1, args = [], callee = None\<rparr>
     = [\<lparr>kind = IntPrimitiveStatement 7, ret_val = 0, args = [], callee = None\<rparr>,
        \<lparr>kind = IntPrimitiveStatement 5, ret_val = 1, args = [], callee = None\<rparr>]"
    by (simp_all add: one_int_test_case_def size_tc_def int_template_def list_insert_def
        insert_index_def norm_position_def)
  show ?thesis
    using h n recursion_bound[OF h, of 0 one_int_test_case constructor_C "- 1" True method_of_Foo
        function_g field_of_Foo int_template]
    by simp
qed

text \<open>
  \<open>add_primitive\<close> has no recursion depth to check: on the empty test case it returns a
  reference and leaves a test case of one statement.
\<close>

theorem add_primitive_never_fails_counterexample:
  "fst (add_primitive empty_test_case int_template (- 1)) = Inr 0
   \<and> size_tc (snd (add_primitive empty_test_case int_template (- 1))) = 1
   \<and> size_tc empty_test_case = 0"
  by (simp add: add_primitive_def new_statement_def new_reference_def add_statement_def
      list_insert_def insert_index_def size_tc_def Let_def example_defs)

lemma scenario_A_run: "scenario_A = Some (Inr 1, final_state scenario_A)"
proof -
  have "\<exists>st'. scenario_A = Some (Inr 1, st')"
    unfolding scenario_A_def
    by (simp add: unfold_factory factory_defs example_defs Let_def)
  then show ?thesis using final_state_Some by fastforce
qed

lemma well_formed_empty: "well_formed empty_test_case"
  by (simp add: well_formed_def empty_test_case_def)

text \<open>Scenario A: the int literal lands at position 0, the constructor call at position 1.\<close>

theorem dependency_order_preserved_witness:
  "well_formed empty_test_case
   \<and> scenario_A = Some (Inr 1, final_state scenario_A)
   \<and> (\<exists>q < length (statements (final_state scenario_A)).
         ret_val (statements (final_state scenario_A) ! q) = 1
         \<and> 1 \<notin> ret_val ` set (statements empty_test_case))
   \<and> dependency_ordered (final_state scenario_A)"
proof -
  have run: "self_add_constructor (test_factory 5 (example_env 0 [])) empty_test_case
      constructor_C (- 1) 0 True = Some (Inr 1, final_state scenario_A)"
    using scenario_A_run by (simp add: scenario_A_def)
  have d: "dependency_ordered empty_test_case"
    by (simp add: dependency_ordered_def empty_test_case_def)
  show ?thesis
    using well_formed_empty scenario_A_run d
      dependency_order_preserved[OF well_formed_empty disjI1[OF run]]
    by blast
qed

lemma well_formed_one_int: "well_formed one_int_test_case"
  by (simp add: well_formed_def one_int_test_case_def owned_def)

lemma forced_two_ints_run: "forced_two_ints = Some (Inr [1, 2], final_state forced_two_ints)"
proof -
  have "\<exists>st'. forced_two_ints = Some (Inr [1, 2], st')"
    unfolding forced_two_ints_def
    by (simp add: unfold_factory factory_defs example_defs Let_def)
  then show ?thesis using final_state_Some by fastforce
qed

text \<open>
  Two \<open>int\<close> parameters at the end of a test case whose \<open>int\<close> literal, reference 0,
  could have been reused: the references returned are those of two new literals.
\<close>

theorem forced_creation_returns_new_witness:
  "well_formed one_int_test_case
   \<and> get_objects one_int_test_case (Some IntT) (norm_position one_int_test_case (- 1)) = [0]
   \<and> forced_two_ints = Some (Inr [1, 2], final_state forced_two_ints)
   \<and> 1 \<in> ret_val ` set (statements (final_state forced_two_ints))
   \<and> 2 \<in> ret_val ` set (statements (final_state forced_two_ints))
   \<and> 1 \<notin> ret_val ` set (statements one_int_test_case)
   \<and> 2 \<notin> ret_val ` set (statements one_int_test_case)
   \<and> ret_val ` set (statements one_int_test_case) = {0}"
proof -
  have run: "self_satisfy_parameters (test_factory 4 (example_env 0 [])) one_int_test_case
       [(''x'', Some IntT), (''y'', Some IntT)] None (- 1) 0 True False
       = Some (Inr [1, 2], final_state forced_two_ints)"
    using forced_two_ints_run by (simp add: forced_two_ints_def)
  have old: "get_objects one_int_test_case (Some IntT) (norm_position one_int_test_case (- 1)) = [0]"
    "ret_val ` set (statements one_int_test_case) = {0}"
    by (simp_all add: get_objects_def norm_position_def size_tc_def one_int_test_case_def)
  show ?thesis
    using well_formed_one_int forced_two_ints_run old
      forced_creation_returns_new[OF well_formed_one_int run]
    by simp
qed

text \<open>
  References of types \<open>Union[int, str]\<close> and \<open>Union[str, int]\<close>, the first remapped to the
  second, are structurally equal; they are not when the remap sends the first
  elsewhere, when the types are \<open>int\<close> and \<open>str\<close>, or when the argument is no reference.
\<close>

theorem structural_eq_iff_witness:
  "structural_eq
     (\<lambda>v. \<lparr>variable_type = Some (if v = 0 then UnionT [IntT, StrT] else UnionT [StrT, IntT]),
           distance = 0\<rparr>) 0 (Reference 1) [0 \<mapsto> 1] = Inr True
   \<and> structural_eq
     (\<lambda>v. \<lparr>variable_type = Some (if v = 0 then UnionT [IntT, StrT] else UnionT [StrT, IntT]),
           distance = 0\<rparr>) 0 (Reference 1) [0 \<mapsto> 0] \<noteq> Inr True
   \<and> structural_eq
     (\<lambda>v. \<lparr>variable_type = Some (if v = 0 then IntT else StrT), distance = 0\<rparr>)
     0 (Reference 1) [0 \<mapsto> 1] \<noteq> Inr True
   \<and> structural_eq (\<lambda>v. \<lparr>variable_type = Some IntT, distance = 0\<rparr>) 0 Not_a_reference [0 \<mapsto> 1]
       \<noteq> Inr True"
  using
    structural_eq_iff[of
      "\<lambda>v. \<lparr>variable_type = Some (if v = 0 then UnionT [IntT, StrT] else UnionT [StrT, IntT]),
            distance = 0\<rparr>" 0 "Reference 1" "[0 \<mapsto> 1]"]
    structural_eq_iff[of
      "\<lambda>v. \<lparr>variable_type = Some (if v = 0 then UnionT [IntT, StrT] else UnionT [StrT, IntT]),
            distance = 0\<rparr>" 0 "Reference 1" "[0 \<mapsto> 0]"]
    structural_eq_iff[of
      "\<lambda>v. \<lparr>variable_type = Some (if v = 0 then IntT else StrT), distance = 0\<rparr>"
      0 "Reference 1" "[0 \<mapsto> 1]"]
    structural_eq_iff[of "\<lambda>v. \<lparr>variable_type = Some IntT, distance = 0\<rparr>" 0 Not_a_reference
      "[0 \<mapsto> 1]"]
  by (simp add: type_eq_def insert_commute)



text \<open>
  With reuse allowed (the default), a parameter of class \<open>Foo\<close> that cannot be satisfied
  makes \<open>satisfy_parameters\<close> raise the failure of reuse-or-create, "No objects for
  type Foo", which names the type and no position.
\<close>

theorem reuse_failure_without_position_counterexample:
  "outcome (self_satisfy_parameters (test_factory 4 (example_env (9 / 10) [])) empty_test_case
              [(''foo'', Some (ClassT ''Foo''))] None (- 1) 0 False True)
     = Some (Inl (ConstructionFailedException (No_objects_for_type (Some (ClassT ''Foo'')))))"
  by (simp add: unfold_factory factory_defs example_defs Let_def)

lemma two_parameters_run: "two_parameters = Some (Inr [0, 1], final_state two_parameters)"
proof -
  have "\<exists>st'. two_parameters = Some (Inr [0, 1], st')"
    unfolding two_parameters_def
    by (simp add: unfold_factory factory_defs example_defs Let_def)
  then show ?thesis using final_state_Some by fastforce
qed

lemma first_created_run: "first_created = Some (Inr (Some 0), final_state first_created)"
proof -
  have "\<exists>st'. first_created = Some (Inr (Some 0), st')"
    unfolding first_created_def
    by (simp add: unfold_factory factory_defs example_defs norm_position_def Let_def)
  then show ?thesis using final_state_Some by fastforce
qed

lemma first_resolved_run: "first_resolved = Some (Inr (Some 0), final_state first_resolved)"
proof -
  have "\<exists>st'. first_resolved = Some (Inr (Some 0), st')"
    unfolding first_resolved_def
    by (simp add: unfold_factory factory_defs example_defs norm_position_def Let_def)
  then show ?thesis using final_state_Some by fastforce
qed

text \<open>
  The three cases at work on two parameters.  \<open>(x: int, y: str)\<close> is resolved to the
  references 0 and 1, of types \<open>int\<close> and \<open>str\<close>.  For \<open>(x: int, foo: Foo)\<close> the first
  parameter is resolved and \<open>Foo\<close> is not: without reuse the failure names \<open>Foo\<close> and
  position 1, with reuse the failure of reuse-or-create is raised; in both the literal
  created for \<open>x\<close> stays in the test case.
\<close>

theorem satisfy_parameters_all_or_nothing_witness:
  "two_parameters = Some (Inr [0, 1], final_state two_parameters)
   \<and> length [0::nat, 1] = length [(''x'', Some IntT), (''y'', Some StrT)]
   \<and> resolved_in_order (test_factory 3 (example_env 0 [])) True None 0 False empty_test_case
        (norm_position empty_test_case (- 1)) [Some IntT, Some StrT] [0, 1]
        (final_state two_parameters)
   \<and> variable_type (vars (final_state two_parameters) 0) = Some IntT
   \<and> variable_type (vars (final_state two_parameters) 1) = Some StrT
   \<and> self_satisfy_parameters (test_factory (Suc 3) (example_env 0 [])) empty_test_case
        [(''x'', Some IntT), (''foo'', Some (ClassT ''Foo''))] None (- 1) 0 False False
       = Some (Inl (ConstructionFailedException
                      (Failed_to_create_variable (Some (ClassT ''Foo'')) 1)),
               final_state first_created)
   \<and> size_tc (final_state first_created) = 1
   \<and> self_satisfy_parameters (test_factory (Suc 3) (example_env (9 / 10) [])) empty_test_case
        [(''x'', Some IntT), (''foo'', Some (ClassT ''Foo''))] None (- 1) 0 False True
       = Some (Inl (ConstructionFailedException (No_objects_for_type (Some (ClassT ''Foo'')))),
               (final_state first_resolved)\<lparr>rng := 4\<rparr>)
   \<and> size_tc (final_state first_resolved) = 1"
proof -
  note main = satisfy_parameters_all_or_nothing
  let ?e = "example_env 0 []"
  let ?e9 = "example_env (9 / 10) []"
  let ?p = "norm_position empty_test_case (- 1)"
  let ?ts = "[(''x'', Some IntT), (''foo'', Some (ClassT ''Foo''))]"
  let ?S = "final_state first_created"
  let ?R = "final_state first_resolved"
  have run: "self_satisfy_parameters (test_factory (Suc 3) ?e) empty_test_case
       [(''x'', Some IntT), (''y'', Some StrT)] None (- 1) 0 False True
       = Some (Inr [0, 1], final_state two_parameters)"
    using two_parameters_run by (simp add: two_parameters_def unfold_factory)
  have a: "length [0::nat, 1] = length [(''x'', Some IntT), (''y'', Some StrT)]
      \<and> resolved_in_order (test_factory 3 ?e) True None 0 False empty_test_case ?p
          [Some IntT, Some StrT] [0, 1] (final_state two_parameters)"
    using main[where n = 3 and e = ?e and st = empty_test_case
        and ts = "[(''x'', Some IntT), (''y'', Some StrT)]" and cr = None and p = "- 1" and d = 0
        and a = False and r = True and vs = "[0, 1]" and st' = "final_state two_parameters",
        THEN conjunct1] run
    by simp
  have ty: "variable_type (vars (final_state two_parameters) 0) = Some IntT
      \<and> variable_type (vars (final_state two_parameters) 1) = Some StrT"
    by (simp add: two_parameters_def final_state_def unfold_factory factory_defs example_defs Let_def)
  have split: "map snd ?ts = [Some IntT] @ Some (ClassT ''Foo'') # []" by simp
  have sz: "size_tc ?S = 1" "size_tc ?R = 1" "size_tc empty_test_case = 0"
    by (simp_all add: first_created_def first_resolved_def final_state_def unfold_factory
        factory_defs example_defs norm_position_def Let_def)
  have r1: "resolve (test_factory 3 ?e) False empty_test_case (Some IntT) ?p 0 False None
      = Some (Inr (Some 0), ?S)"
    using first_created_run by (simp add: resolve_def first_created_def)
  have pre1: "resolved_in_order (test_factory 3 ?e) False None 0 False empty_test_case ?p
      [Some IntT] [0] ?S"
    using r1 resolved_in_order.none_left by (rule resolved_in_order.one_more)
  have none: "resolve (test_factory 3 ?e) False ?S (Some (ClassT ''Foo''))
      (?p + (size_tc ?S - size_tc empty_test_case)) 0 False None = Some (Inr None, ?S)"
    by (simp add: resolve_def unfold_factory factory_defs example_defs)
  have b: "self_satisfy_parameters (test_factory (Suc 3) ?e) empty_test_case ?ts None (- 1) 0
        False False
       = Some (Inl (ConstructionFailedException
                      (Failed_to_create_variable (Some (ClassT ''Foo'')) 1)), ?S)"
    using main[where n = 3 and e = ?e and st = empty_test_case and ts = ?ts and cr = None
        and p = "- 1" and d = 0 and a = False and r = False and pre = "[Some IntT]"
        and t = "Some (ClassT ''Foo'')" and post = "[]" and ws = "[0]" and stk = ?S
        and ?st1.0 = ?S, THEN conjunct2, THEN conjunct1]
      split pre1 none sz
    by (simp add: norm_position_def)
  have r2: "resolve (test_factory 3 ?e9) True empty_test_case (Some IntT) ?p 0 False None
      = Some (Inr (Some 0), ?R)"
    using first_resolved_run by (simp add: resolve_def first_resolved_def)
  have pre2: "resolved_in_order (test_factory 3 ?e9) True None 0 False empty_test_case ?p
      [Some IntT] [0] ?R"
    using r2 resolved_in_order.none_left by (rule resolved_in_order.one_more)
  have raise: "resolve (test_factory 3 ?e9) True ?R (Some (ClassT ''Foo''))
      (?p + (size_tc ?R - size_tc empty_test_case)) 0 False None
      = Some (Inl (ConstructionFailedException (No_objects_for_type (Some (ClassT ''Foo'')))),
              ?R\<lparr>rng := 4\<rparr>)"
    by (simp add: resolve_def first_resolved_def final_state_def unfold_factory factory_defs
        example_defs norm_position_def Let_def)
  have c: "self_satisfy_parameters (test_factory (Suc 3) ?e9) empty_test_case ?ts None (- 1) 0
        False True
       = Some (Inl (ConstructionFailedException (No_objects_for_type (Some (ClassT ''Foo'')))),
               ?R\<lparr>rng := 4\<rparr>)"
    using main[where n = 3 and e = ?e9 and st = empty_test_case and ts = ?ts and cr = None
        and p = "- 1" and d = 0 and a = False and r = True and pre = "[Some IntT]"
        and t = "Some (ClassT ''Foo'')" and post = "[]" and ws = "[0]" and stk = ?R
        and ?st1.0 = "?R\<lparr>rng := 4\<rparr>"
        and ex = "ConstructionFailedException (No_objects_for_type (Some (ClassT ''Foo'')))",
        THEN conjunct2, THEN conjunct2]
      split pre2 raise
    by simp
  show ?thesis using two_parameters_run a ty b c sz by simp
qed

text \<open>
  \<open>Union[int, str]\<close> is requested after the one \<open>int\<close> literal of the test case and the
  arm \<open>int\<close> is drawn.
\<close>

theorem deterministic_reuse_witness:
  "select_from_union (example_env (1 / 2) []) one_int_test_case (Some (UnionT [IntT, StrT]))
     = (Inr (Some IntT), one_int_test_case\<lparr>rng := 1\<rparr>)
   \<and> get_objects one_int_test_case (Some IntT) 1 = [0]
   \<and> floats (example_env (1 / 2) []) (rng (one_int_test_case\<lparr>rng := 1\<rparr>)) \<le> 1
   \<and> (if is_primitive_type (Some IntT) then primitive_reuse_probability (example_env (1 / 2) []) = 1
       else object_reuse_probability (example_env (1 / 2) []) = 1)
   \<and> (\<exists>v st'. self_create_or_reuse_variable (test_factory (Suc 0) (example_env (1 / 2) []))
                  one_int_test_case (Some (UnionT [IntT, StrT])) 1 0 True None
                = Some (Inr (Some v), st')
           \<and> v \<in> set (get_objects one_int_test_case (Some IntT) 1)
           \<and> statements st' = statements one_int_test_case
           \<and> size_tc st' = size_tc one_int_test_case)"
proof -
  have h1: "select_from_union (example_env (1 / 2) []) one_int_test_case
        (Some (UnionT [IntT, StrT]))
     = (Inr (Some IntT), one_int_test_case\<lparr>rng := 1\<rparr>)"
    by (simp add: select_from_union_def choice_def example_env_def one_int_test_case_def)
  have h2: "get_objects one_int_test_case (Some IntT) 1 = [0]"
    by (simp add: get_objects_def one_int_test_case_def)
  have h2': "get_objects one_int_test_case (Some IntT) 1 \<noteq> []"
    using h2 by simp
  have h3: "floats (example_env (1 / 2) []) (rng (one_int_test_case\<lparr>rng := 1\<rparr>)) \<le> 1"
    by (simp add: example_env_def)
  have h4: "if is_primitive_type (Some IntT)
            then primitive_reuse_probability (example_env (1 / 2) []) = 1
            else object_reuse_probability (example_env (1 / 2) []) = 1"
    by (simp add: example_env_def)
  show ?thesis
    using h1 h2 h3 h4 deterministic_reuse[OF h1 h2' h3 h4, where n = 0 and d = 0 and a = True
        and x = None]
    by blast
qed

text \<open>
  Both reuse probabilities are 1 and the test case holds an object of type
  \<open>Union[str, int]\<close> and an \<open>int\<close>; \<open>Union[str, int]\<close> is requested and the arm \<open>str\<close> is
  drawn, of which there is no object: a new \<open>str\<close> literal is built and the size grows
  from 2 to 3.
\<close>

theorem union_arm_without_object_counterexample:
  "primitive_reuse_probability (example_env 0 []) = 1
   \<and> object_reuse_probability (example_env 0 []) = 1
   \<and> get_objects int_and_union_test_case (Some (UnionT [StrT, IntT])) 2 = [1]
   \<and> get_objects int_and_union_test_case (Some IntT) 2 = [0]
   \<and> outcome union_request = Some (Inr (Some 2))
   \<and> statements (final_state union_request)
       = statements int_and_union_test_case
         @ [\<lparr>kind = StringPrimitiveStatement 0, ret_val = 2, args = [], callee = None\<rparr>]
   \<and> size_tc int_and_union_test_case = 2
   \<and> size_tc (final_state union_request) = 3"
  by (simp add: union_request_def int_and_union_test_case_def function_h_def final_state_def
      unfold_factory factory_defs example_defs Let_def)



lemma receiver_run_eval:
  "receiver_run = Some (Inr (Some 0), final_state receiver_run)"
proof -
  have "\<exists>st'. receiver_run = Some (Inr (Some 0), st')"
    unfolding receiver_run_def
    by (simp add: unfold_factory factory_defs example_defs Let_def)
  then show ?thesis using final_state_Some by fastforce
qed

lemma params_run_eval: "params_run = Some (Inl unknown_Foo, final_state params_run)"
proof -
  have "\<exists>st'. params_run = Some (Inl unknown_Foo, st')"
    unfolding params_run_def receiver_run_def unknown_Foo_def
    by (simp add: unfold_factory factory_defs example_defs norm_position_def final_state_def
        Let_def)
  then show ?thesis using final_state_Some by fastforce
qed

text \<open>
  A generator of no known kind for \<open>Foo\<close>: the same "Unknown statement type" failure
  reaches the caller wrapped from \<open>add_constructor\<close> and bare from the other three.
\<close>

theorem failure_wrapping_witness:
  "self_add_constructor (test_factory (Suc 6) (example_env 0 broken_catalog)) empty_test_case
       constructor_D (- 1) 0 False
     = Some (Inl (ConstructionFailedException (Failed_to_add_constructor constructor_D unknown_Foo)),
             empty_test_case\<lparr>rng := 2\<rparr>)
   \<and> self_add_function (test_factory (Suc 6) (example_env 0 broken_catalog)) empty_test_case
       function_g (- 1) 0 False
     = Some (Inl unknown_Foo, empty_test_case\<lparr>rng := 2\<rparr>)
   \<and> self_add_method (test_factory (Suc 6) (example_env 0 broken_catalog)) empty_test_case
       method_of_Foo (- 1) 0 False
     = Some (Inl unknown_Foo, empty_test_case\<lparr>rng := 2\<rparr>)
   \<and> self_add_method (test_factory (Suc 6) (example_env 0 broken_catalog)) empty_test_case
       method_of_int (- 1) 0 False
     = Some (Inl unknown_Foo, final_state params_run)
   \<and> self_add_field (test_factory (Suc 6) (example_env 0 broken_catalog)) empty_test_case
       field_of_Foo (- 1) 0
     = Some (Inl unknown_Foo, empty_test_case\<lparr>rng := 2\<rparr>)"
proof -
  let ?e = "example_env 0 broken_catalog"
  let ?st2 = "empty_test_case\<lparr>rng := 2\<rparr>"
  note main = failure_wrapping[where n = 6 and e = ?e and st = empty_test_case and p = "- 1"
      and d = 0 and a = False and ex = unknown_Foo]
  have d: "0 \<le> max_recursion ?e" by (simp add: example_env_def)
  have sp1: "self_satisfy_parameters (test_factory 6 ?e) empty_test_case
      (parameters (c_inferred_signature constructor_D)) None
      (norm_position empty_test_case (- 1)) (0 + 1) False True = Some (Inl unknown_Foo, ?st2)"
    by (simp add: unknown_Foo_def unfold_factory factory_defs example_defs norm_position_def Let_def)
  have sp2: "self_satisfy_parameters (test_factory 6 ?e) empty_test_case
      (parameters (f_inferred_signature function_g)) None
      (norm_position empty_test_case (- 1)) (0 + 1) False True = Some (Inl unknown_Foo, ?st2)"
    by (simp add: unknown_Foo_def unfold_factory factory_defs example_defs norm_position_def Let_def)
  have r3: "self_create_or_reuse_variable (test_factory 6 ?e) empty_test_case
      (Some (m_owner method_of_Foo)) (norm_position empty_test_case (- 1)) 0 True None
      = Some (Inl unknown_Foo, ?st2)"
    by (simp add: unknown_Foo_def unfold_factory factory_defs example_defs norm_position_def Let_def)
  have r4: "self_create_or_reuse_variable (test_factory 6 ?e) empty_test_case
      (Some (m_owner method_of_int)) (norm_position empty_test_case (- 1)) 0 True None
      = Some (Inr (Some 0), final_state receiver_run)"
    using receiver_run_eval
    by (simp add: receiver_run_def method_of_int_def norm_position_def size_tc_def
        empty_test_case_def)
  have sp4: "self_satisfy_parameters (test_factory 6 ?e) (final_state receiver_run)
      (parameters (m_inferred_signature method_of_int)) None
      (norm_position empty_test_case (- 1)) (0 + 1) False True
      = Some (Inl unknown_Foo, final_state params_run)"
    using params_run_eval by (simp add: params_run_def)
  have r5: "self_create_or_reuse_variable (test_factory 6 ?e) empty_test_case
      (Some (fld_owner field_of_Foo)) (norm_position empty_test_case (- 1)) 0 False None
      = Some (Inl unknown_Foo, ?st2)"
    by (simp add: unknown_Foo_def unfold_factory factory_defs example_defs norm_position_def Let_def)
  show ?thesis
    using d sp1 sp2 r3 r4 sp4 r5
      main[where c = constructor_D and ?st1.0 = ?st2, THEN conjunct1]
      main[where f = function_g and ?st1.0 = ?st2, THEN conjunct2, THEN conjunct1]
      main[where m = method_of_Foo and ?st1.0 = ?st2,
        THEN conjunct2, THEN conjunct2, THEN conjunct1]
      main[where m = method_of_int and ?st1.0 = "final_state receiver_run"
        and ?st2.0 = "final_state params_run" and receiver = 0,
        THEN conjunct2, THEN conjunct2, THEN conjunct2, THEN conjunct1]
      main[where fld = field_of_Foo and ?st1.0 = ?st2,
        THEN conjunct2, THEN conjunct2, THEN conjunct2, THEN conjunct2]
    by simp
qed

end
